theory Spec2Isabelle
  imports Main "HOL-Library.Word"
begin

unbundle bit_operations_syntax

section \<open>DualRefCounted (src/core/util/dual_ref_counted.h)\<close>

subsection \<open>The packed ref-pair\<close>

text \<open>
  \<^verbatim>\<open>refs_\<close> is one \<^verbatim>\<open>std::atomic<uint64_t>\<close>; the strong count is its upper 32 bits, the
  weak count its lower 32 bits. The three static helpers are translated as they are written:
  the casts are \<open>ucast\<close>, the shifts \<open>push_bit\<close> and \<open>drop_bit\<close>, and \<open>+\<close> wraps modulo
  \<open>2 ^ 64\<close>. An \<^verbatim>\<open>int32_t\<close> is kept as its 32 bits (read as a number by \<open>sint\<close>), so that
  the implicit conversion to \<^verbatim>\<open>uint32_t\<close> at a call of \<^verbatim>\<open>MakeRefPair\<close> leaves the bits alone.
\<close>

type_synonym uint32_t = "32 word"
type_synonym uint64_t = "64 word"
type_synonym int32_t = "32 word"

definition MakeRefPair :: "uint32_t \<Rightarrow> uint32_t \<Rightarrow> uint64_t" where
  "MakeRefPair strong weak = push_bit 32 (ucast strong :: uint64_t) + ucast weak"

definition GetStrongRefs :: "uint64_t \<Rightarrow> uint32_t" where
  "GetStrongRefs ref_pair = ucast (drop_bit 32 ref_pair)"

definition GetWeakRefs :: "uint64_t \<Rightarrow> uint32_t" where
  "GetWeakRefs ref_pair = ucast (ref_pair AND 0xffffffff)"

subsection \<open>The object and its operations\<close>

text \<open>
  The object is its atomic word together with the record of the two calls that leave the
  class: the pure virtual \<^verbatim>\<open>Orphaned()\<close> and the destroy behaviour \<^verbatim>\<open>unref_behavior_\<close>.
  Both are supplied by the subclass, so each is modelled by appending an event to a log,
  in call order.
\<close>

datatype event = OrphanedCalled | UnrefBehaviorCalled

datatype error = CheckFailed

record DualRefCounted =
  refs :: uint64_t
  events :: "event list"

text \<open>
  The constructor: \<^verbatim>\<open>refs_(MakeRefPair(initial_refcount, 0))\<close>, with 1 the default argument
  of \<^verbatim>\<open>initial_refcount\<close>. Its other argument, \<^verbatim>\<open>trace\<close>, only feeds the \<^verbatim>\<open>VLOG\<close> lines
  of the debug build and is left out.
\<close>

definition DualRefCounted_ctor :: "int32_t \<Rightarrow> DualRefCounted" where
  "DualRefCounted_ctor initial_refcount = \<lparr>refs = MakeRefPair initial_refcount 0, events = []\<rparr>"

definition DualRefCounted_default :: DualRefCounted where
  "DualRefCounted_default = DualRefCounted_ctor 1"

datatype access_specifier = Public | Protected | Private

text \<open>
  The constructor stands in the \<^verbatim>\<open>protected:\<close> part of the class (line 296 of the header):
  a subclass can call it, a user of the class cannot. The operations from \<^verbatim>\<open>Ref()\<close> to
  \<^verbatim>\<open>WeakRefIfNonZero()\<close> stand in the \<^verbatim>\<open>public:\<close> part.
\<close>

definition DualRefCounted_ctor_access :: access_specifier where
  "DualRefCounted_ctor_access = Protected"

text \<open>
  \<^verbatim>\<open>fetch_add\<close> and \<^verbatim>\<open>fetch_sub\<close> return the previous value and store the wrapped result.
\<close>

definition fetch_add :: "uint64_t \<Rightarrow> DualRefCounted \<Rightarrow> uint64_t \<times> DualRefCounted" where
  "fetch_add d st = (refs st, st\<lparr>refs := refs st + d\<rparr>)"

definition fetch_sub :: "uint64_t \<Rightarrow> DualRefCounted \<Rightarrow> uint64_t \<times> DualRefCounted" where
  "fetch_sub d st = (refs st, st\<lparr>refs := refs st - d\<rparr>)"

definition Orphaned :: "DualRefCounted \<Rightarrow> DualRefCounted" where
  "Orphaned st = st\<lparr>events := events st @ [OrphanedCalled]\<rparr>"

definition unref_behavior :: "DualRefCounted \<Rightarrow> DualRefCounted" where
  "unref_behavior st = st\<lparr>events := events st @ [UnrefBehaviorCalled]\<rparr>"

text \<open>
  Every operation takes the build as its first argument: \<open>debug = True\<close> is the build
  without \<^verbatim>\<open>NDEBUG\<close>, where a failing \<^verbatim>\<open>CHECK\<close> aborts (\<open>Inl CheckFailed\<close>); with
  \<open>debug = False\<close> the checks are compiled out. The \<^verbatim>\<open>VLOG\<close> trace lines write no state
  and are left out.
\<close>

definition IncrementRefCount :: "bool \<Rightarrow> DualRefCounted \<Rightarrow> error + DualRefCounted" where
  "IncrementRefCount debug st =
     (let (prev_ref_pair, st1) = fetch_add (MakeRefPair 1 0) st;
          strong_refs = GetStrongRefs prev_ref_pair
      in if debug \<and> \<not> strong_refs \<noteq> 0 then Inl CheckFailed else Inr st1)"

definition IncrementWeakRefCount :: "bool \<Rightarrow> DualRefCounted \<Rightarrow> error + DualRefCounted" where
  "IncrementWeakRefCount debug st =
     (let (prev_ref_pair, st1) = fetch_add (MakeRefPair 0 1) st;
          strong_refs = GetStrongRefs prev_ref_pair;
          weak_refs = GetWeakRefs prev_ref_pair
      in if debug \<and> strong_refs = 0 \<and> \<not> weak_refs \<noteq> 0 then Inl CheckFailed else Inr st1)"

definition Ref :: "bool \<Rightarrow> DualRefCounted \<Rightarrow> error + DualRefCounted" where
  "Ref debug st = IncrementRefCount debug st"

definition WeakRef :: "bool \<Rightarrow> DualRefCounted \<Rightarrow> error + DualRefCounted" where
  "WeakRef debug st = IncrementWeakRefCount debug st"

definition WeakUnref :: "bool \<Rightarrow> DualRefCounted \<Rightarrow> error + DualRefCounted" where
  "WeakUnref debug st =
     (let (prev_ref_pair, st1) = fetch_sub (MakeRefPair 0 1) st;
          weak_refs = GetWeakRefs prev_ref_pair
      in if debug \<and> \<not> weak_refs > 0 then Inl CheckFailed
         else if prev_ref_pair = MakeRefPair 0 1 then Inr (unref_behavior st1)
         else Inr st1)"

text \<open>
  \<^verbatim>\<open>Unref\<close> in its three phases: the fused \<^verbatim>\<open>fetch_add(MakeRefPair(-1, 1))\<close>, the call of
  \<^verbatim>\<open>Orphaned()\<close> when the previous strong count was 1, and \<^verbatim>\<open>WeakUnref()\<close>.
  \<open>Unref_convert\<close> is the first phase; its second component is the state in which
  \<^verbatim>\<open>Orphaned()\<close> runs.
\<close>

definition Unref_convert :: "DualRefCounted \<Rightarrow> uint64_t \<times> DualRefCounted" where
  "Unref_convert st = fetch_add (MakeRefPair (- 1) 1) st"

definition Unref :: "bool \<Rightarrow> DualRefCounted \<Rightarrow> error + DualRefCounted" where
  "Unref debug st =
     (let (prev_ref_pair, st1) = Unref_convert st;
          strong_refs = GetStrongRefs prev_ref_pair
      in if debug \<and> \<not> strong_refs > 0 then Inl CheckFailed
         else WeakUnref debug (if strong_refs = 1 then Orphaned st1 else st1))"

text \<open>
  \<^verbatim>\<open>RefIfNonZero\<close> is a compare-exchange loop. What other threads do to \<^verbatim>\<open>refs_\<close> between
  the load of \<^verbatim>\<open>prev_ref_pair\<close> and the compare-exchange is the list \<open>interference\<close>: each
  element is a value another thread has stored in \<^verbatim>\<open>refs_\<close> by the time of one
  compare-exchange, which therefore fails and loads that value into \<^verbatim>\<open>prev_ref_pair\<close> (a
  spurious failure of \<^verbatim>\<open>compare_exchange_weak\<close> repeats the value). At the head of the loop
  \<^verbatim>\<open>prev_ref_pair\<close> is the value of \<^verbatim>\<open>refs_\<close>, so once the list is used up the
  compare-exchange succeeds. The loop is total because the list is finite; under endless
  interference the source loop does not return. The result is the handle (\<open>True\<close>) or
  \<^verbatim>\<open>nullptr\<close> (\<open>False\<close>), the value of \<^verbatim>\<open>prev_ref_pair\<close> at the exit, and the object.
\<close>

fun RefIfNonZero_loop ::
  "uint64_t list \<Rightarrow> uint64_t \<Rightarrow> DualRefCounted \<Rightarrow> bool \<times> uint64_t \<times> DualRefCounted" where
  "RefIfNonZero_loop [] prev_ref_pair st =
     (if GetStrongRefs prev_ref_pair = 0 then (False, prev_ref_pair, st)
      else (True, prev_ref_pair, st\<lparr>refs := prev_ref_pair + MakeRefPair 1 0\<rparr>))"
| "RefIfNonZero_loop (v # interference) prev_ref_pair st =
     (if GetStrongRefs prev_ref_pair = 0 then (False, prev_ref_pair, st)
      else RefIfNonZero_loop interference v (st\<lparr>refs := v\<rparr>))"

definition RefIfNonZero ::
  "uint64_t list \<Rightarrow> DualRefCounted \<Rightarrow> bool \<times> uint64_t \<times> DualRefCounted" where
  "RefIfNonZero interference st = RefIfNonZero_loop interference (refs st) st"

subsection \<open>Sequences of operations\<close>

datatype op = OpRef | OpUnref | OpWeakRef | OpWeakUnref

fun apply_op :: "bool \<Rightarrow> op \<Rightarrow> DualRefCounted \<Rightarrow> error + DualRefCounted" where
  "apply_op debug OpRef st = Ref debug st"
| "apply_op debug OpUnref st = Unref debug st"
| "apply_op debug OpWeakRef st = WeakRef debug st"
| "apply_op debug OpWeakUnref st = WeakUnref debug st"

fun run_ops :: "bool \<Rightarrow> op list \<Rightarrow> DualRefCounted \<Rightarrow> error + DualRefCounted" where
  "run_ops debug [] st = Inr st"
| "run_ops debug (x # xs) st =
     (case apply_op debug x st of Inl e \<Rightarrow> Inl e | Inr st' \<Rightarrow> run_ops debug xs st')"

text \<open>
  Matched totals: the initial strong ref and every \<^verbatim>\<open>Ref\<close> is released by one \<^verbatim>\<open>Unref\<close>,
  every \<^verbatim>\<open>WeakRef\<close> by one \<^verbatim>\<open>WeakUnref\<close>.
\<close>

definition matched :: "op list \<Rightarrow> bool" where
  "matched ops \<longleftrightarrow>
     count_list ops OpUnref = Suc (count_list ops OpRef) \<and>
     count_list ops OpWeakUnref = count_list ops OpWeakRef"

text \<open>The two counts as numbers.\<close>

definition strong_count :: "DualRefCounted \<Rightarrow> nat" where
  "strong_count st = unat (GetStrongRefs (refs st))"

definition weak_count :: "DualRefCounted \<Rightarrow> nat" where
  "weak_count st = unat (GetWeakRefs (refs st))"

section \<open>PartySync slot reservation\<close>

text \<open>
  Modelled from the spec: the state of \<^verbatim>\<open>PartySync\<close> (src/core/lib/promise/party.h, which
  is not among the sources): the lock bit, one wakeup bit and one allocated bit per
  participant slot, and the reference count of the sync, created with an initial count and
  no participants. The two bit sets are kept as 64-bit masks, bit \<open>i\<close> standing for slot
  \<open>i\<close>.
\<close>

record PartySync =
  locked :: bool
  wakeups :: uint64_t
  allocated :: uint64_t
  ref_count :: nat


text \<open>
  Modelled from the spec: the body of \<^verbatim>\<open>PartySync::AddParticipantsAndRef\<close> (declared in
  src/core/lib/promise/party.h, which is not among the sources; only its test is). The
  specification has it reserve \<open>n\<close> free slots atomically, a batch of consecutive free
  slots with strictly increasing indices. \<open>reserve_slots\<close> walks the candidate slots in the
  order given, skips the allocated ones, and marks and collects free ones until \<open>count\<close>
  are found.
\<close>

fun reserve_slots :: "nat list \<Rightarrow> nat \<Rightarrow> uint64_t \<Rightarrow> nat list \<times> uint64_t" where
  "reserve_slots [] count alloc = ([], alloc)"
| "reserve_slots (slot # candidates) count alloc =
     (if count = 0 then ([], alloc)
      else if bit alloc slot then reserve_slots candidates count alloc
      else (let (slots, alloc') = reserve_slots candidates (count - 1) (set_bit slot alloc)
            in (slot # slots, alloc')))"

text \<open>
  Modelled from the spec: \<^verbatim>\<open>AddParticipantsAndRef(n, assign_fn)\<close> reserves \<open>n\<close> free slots,
  invokes \<open>assign_fn\<close> on the slot indices while holding the reservation, increments the
  reference count by one, sets the wakeup bits of those slots, and returns whether the lock
  went from unlocked to locked. It fails only if too few slots are free, a programming
  fault that aborts. \<open>kMaxParticipants\<close> is a compile-time constant of the missing header
  (at most 64) and is a parameter here; \<open>assign_fn\<close> acts on the caller's own state \<open>user\<close>.
\<close>

definition AddParticipantsAndRef ::
  "nat \<Rightarrow> nat \<Rightarrow> (nat list \<Rightarrow> 'u \<Rightarrow> 'u) \<Rightarrow> PartySync \<times> 'u \<Rightarrow> error + (bool \<times> PartySync \<times> 'u)" where
  "AddParticipantsAndRef kMaxParticipants n assign_fn s =
     (let (sync, user) = s;
          (slots, alloc') = reserve_slots [0..<kMaxParticipants] n (allocated sync)
      in if length slots \<noteq> n then Inl CheckFailed
         else Inr (\<not> locked sync,
                   sync\<lparr>locked := True,
                        wakeups := fold set_bit slots (wakeups sync),
                        allocated := alloc',
                        ref_count := ref_count sync + 1\<rparr>,
                   assign_fn slots user))"

text \<open>
  The slot indices a call on \<open>sync\<close> hands to \<open>assign_fn\<close>: the first component of the
  reservation made in \<open>AddParticipantsAndRef\<close>.
\<close>

definition assigned_slots :: "nat \<Rightarrow> nat \<Rightarrow> PartySync \<Rightarrow> nat list" where
  "assigned_slots kMaxParticipants n sync =
     fst (reserve_slots [0..<kMaxParticipants] n (allocated sync))"

section \<open>Party and Waker\<close>


















section \<open>ForwardCall (src/core/call/call_spine.cc)\<close>

text \<open>
  \<^verbatim>\<open>ForwardCall\<close> spawns two participants. What they do to the two call objects is recorded
  as a log of the calls they make, in call order. A promise is run to completion: it takes
  the state and returns its result with the new state.

  Modelled from the spec: the result types \<^verbatim>\<open>StatusFlag\<close> (\<^verbatim>\<open>Success\<close> or \<^verbatim>\<open>Failure\<close>) and
  \<^verbatim>\<open>ValueOrFailure\<close> (a value, or a failure, here \<open>NoValue\<close>) of
  src/core/lib/promise/status_flag.h, which is not among the sources.
\<close>

datatype StatusFlag = Success | Failure

datatype 'a ValueOrFailure = Value 'a | NoValue

datatype ('md, 'msg) handler_action =
    SpawnPushServerInitialMetadata 'md
  | SpawnPushMessage 'msg
  | OnServerTrailingMetadataFromInitiator 'md
  | SpawnPushServerTrailingMetadata 'md

datatype 'msg initiator_action = InitiatorSpawnPushMessage 'msg | SpawnFinishSends

record ('md, 'msg) spine_state =
  handler_log :: "('md, 'msg) handler_action list"
  initiator_log :: "'msg initiator_action list"
  initiator_cancelled :: bool

text \<open>
  What the initiator side delivers to the pump: the result of pulling the server initial
  metadata (a failure, an empty optional, or metadata), the server messages that
  \<^verbatim>\<open>MessagesFrom(call_initiator)\<close> yields and how that stream ends, and the server trailing
  metadata, which may depend on whether the call was cancelled before it is pulled.
\<close>

record ('md, 'msg) initiator_side =
  server_initial_metadata :: "'md option ValueOrFailure"
  server_messages :: "'msg list"
  server_messages_end :: StatusFlag
  server_trailing_metadata :: "bool \<Rightarrow> 'md"

type_synonym ('s, 'a) promise = "'s \<Rightarrow> 'a \<times> 's"

text \<open>
  Modelled from the spec: the promise combinators \<^verbatim>\<open>Seq\<close>, \<^verbatim>\<open>TrySeq\<close> and \<^verbatim>\<open>ForEach\<close>
  (src/core/lib/promise/seq.h, try_seq.h and for_each.h, not among the sources), as ordinary
  combinators over promises. \<^verbatim>\<open>Seq\<close> runs the first promise and hands its result to the
  next; \<^verbatim>\<open>TrySeq\<close> does the same but stops with a failure when the first promise fails;
  \<^verbatim>\<open>ForEach\<close> runs the action on each element the stream yields, in order, stops at a
  failing action, and ends with the status the stream ends with.
\<close>

definition Seq :: "('s, 'a) promise \<Rightarrow> ('a \<Rightarrow> ('s, 'b) promise) \<Rightarrow> ('s, 'b) promise" where
  "Seq p f = (\<lambda>s. case p s of (a, s') \<Rightarrow> f a s')"

definition TrySeq ::
  "('s, 'a ValueOrFailure) promise \<Rightarrow> ('a \<Rightarrow> ('s, StatusFlag) promise) \<Rightarrow> ('s, StatusFlag) promise" where
  "TrySeq p f = (\<lambda>s. case p s of (NoValue, s') \<Rightarrow> (Failure, s') | (Value a, s') \<Rightarrow> f a s')"

fun ForEach ::
  "'msg list \<Rightarrow> StatusFlag \<Rightarrow> ('msg \<Rightarrow> ('s, StatusFlag) promise) \<Rightarrow> ('s, StatusFlag) promise" where
  "ForEach [] stream_end action s = (stream_end, s)"
| "ForEach (msg # msgs) stream_end action s =
     (case action msg s of
        (Success, s') \<Rightarrow> ForEach msgs stream_end action s'
      | (Failure, s') \<Rightarrow> (Failure, s'))"

text \<open>
  Modelled from the spec: the methods of \<^verbatim>\<open>CallInitiator\<close> and \<^verbatim>\<open>CallHandler\<close>
  (src/core/call/call_spine.h, not among the sources). The pulls deliver what the initiator
  side holds; \<^verbatim>\<open>CancelIfFails\<close> cancels the initiator when its promise fails and passes the
  result on; each \<^verbatim>\<open>Spawn...\<close> call is recorded in the log of the call object it is made on.
\<close>

definition PullServerInitialMetadata ::
  "('md, 'msg) initiator_side \<Rightarrow> (('md, 'msg) spine_state, 'md option ValueOrFailure) promise" where
  "PullServerInitialMetadata ini = (\<lambda>s. (server_initial_metadata ini, s))"

definition PullServerTrailingMetadata ::
  "('md, 'msg) initiator_side \<Rightarrow> (('md, 'msg) spine_state, 'md) promise" where
  "PullServerTrailingMetadata ini = (\<lambda>s. (server_trailing_metadata ini (initiator_cancelled s), s))"

definition CancelIfFails ::
  "(('md, 'msg) spine_state, StatusFlag) promise \<Rightarrow> (('md, 'msg) spine_state, StatusFlag) promise" where
  "CancelIfFails p =
     (\<lambda>s. case p s of
             (Failure, s') \<Rightarrow> (Failure, s'\<lparr>initiator_cancelled := True\<rparr>)
           | (Success, s') \<Rightarrow> (Success, s'))"

definition handler_call ::
  "('md, 'msg) handler_action \<Rightarrow> ('md, 'msg) spine_state \<Rightarrow> ('md, 'msg) spine_state" where
  "handler_call a s = s\<lparr>handler_log := handler_log s @ [a]\<rparr>"

definition initiator_call ::
  "'msg initiator_action \<Rightarrow> ('md, 'msg) spine_state \<Rightarrow> ('md, 'msg) spine_state" where
  "initiator_call a s = s\<lparr>initiator_log := initiator_log s @ [a]\<rparr>"

text \<open>
  The participant \<^verbatim>\<open>"read_messages"\<close> spawned on the handler: forward every client message
  to the initiator, then finish the sends.
\<close>

definition read_messages ::
  "'msg list \<Rightarrow> StatusFlag \<Rightarrow> (('md, 'msg) spine_state, unit) promise" where
  "read_messages client_messages client_messages_end =
     Seq (ForEach client_messages client_messages_end
            (\<lambda>msg s. (Success, initiator_call (InitiatorSpawnPushMessage msg) s)))
         (\<lambda>_ s. ((), initiator_call SpawnFinishSends s))"

text \<open>
  The participant \<^verbatim>\<open>"read_the_things"\<close> spawned on the initiator. \<^verbatim>\<open>If(has_md, ..., ...)\<close>
  with \<^verbatim>\<open>has_md = md.has_value()\<close> is the case distinction on the optional. The observer
  \<^verbatim>\<open>on_server_trailing_metadata_from_initiator\<close> takes the metadata by reference and may
  change it, so it is a function on metadata; the log keeps the metadata it was called
  with, and the metadata it leaves is what is pushed to the handler.
\<close>

definition read_the_things ::
  "('md, 'msg) initiator_side \<Rightarrow> ('md \<Rightarrow> 'md) \<Rightarrow> (('md, 'msg) spine_state, unit) promise" where
  "read_the_things ini on_server_trailing_metadata_from_initiator =
     Seq (CancelIfFails
            (TrySeq (PullServerInitialMetadata ini)
               (\<lambda>md. case md of
                   Some m \<Rightarrow>
                     (\<lambda>s. ForEach (server_messages ini) (server_messages_end ini)
                             (\<lambda>msg s. (Success, handler_call (SpawnPushMessage msg) s))
                             (handler_call (SpawnPushServerInitialMetadata m) s))
                 | None \<Rightarrow> (\<lambda>s. (Success, s)))))
         (\<lambda>_. Seq (PullServerTrailingMetadata ini)
                 (\<lambda>md s.
                    ((), handler_call
                           (SpawnPushServerTrailingMetadata
                              (on_server_trailing_metadata_from_initiator md))
                           (handler_call (OnServerTrailingMetadataFromInitiator md) s))))"

definition spine_start :: "('md, 'msg) spine_state" where
  "spine_start = \<lparr>handler_log = [], initiator_log = [], initiator_cancelled = False\<rparr>"

text \<open>
  \<^verbatim>\<open>ForwardCall\<close>: both participants, each run to completion; they write disjoint parts of
  the state. The first statement, \<^verbatim>\<open>call_handler.AddChildCall(call_initiator)\<close>, registers the
  initiator with the handler and pushes nothing; a cancellation it brings about reaches the
  pump through what the initiator side delivers.
\<close>

definition ForwardCall ::
  "'msg list \<Rightarrow> StatusFlag \<Rightarrow> ('md, 'msg) initiator_side \<Rightarrow> ('md \<Rightarrow> 'md) \<Rightarrow> ('md, 'msg) spine_state" where
  "ForwardCall client_messages client_messages_end ini on_server_trailing_metadata_from_initiator =
     snd (read_the_things ini on_server_trailing_metadata_from_initiator
            (snd (read_messages client_messages client_messages_end spine_start)))"

definition is_observer_call :: "('md, 'msg) handler_action \<Rightarrow> bool" where
  "is_observer_call a = (case a of OnServerTrailingMetadataFromInitiator _ \<Rightarrow> True | _ \<Rightarrow> False)"

section \<open>Arithmetic of the packed word\<close>

lemma mask32: "(0xffffffff :: 64 word) = mask 32"
  by (simp add: mask_eq_exp_minus_1)

lemma unat32_less: "unat (w :: 32 word) < 4294967296"
  using unsigned_less [of w, where 'a = nat] by simp

lemma unat64_less: "unat (w :: 64 word) < 18446744073709551616"
  using unsigned_less [of w, where 'a = nat] by simp

lemma unat_GetStrongRefs: "unat (GetStrongRefs v) = unat v div 2 ^ 32"
proof -
  have "unat v div 2 ^ 32 < 2 ^ 32"
    using unat64_less [of v] by (simp add: less_mult_imp_div_less)
  moreover have "unat (GetStrongRefs v) = take_bit 32 (drop_bit 32 (unat v))"
    unfolding GetStrongRefs_def by (simp only: unsigned_ucast_eq unat_drop_bit_eq) simp
  ultimately show ?thesis
    by (simp add: drop_bit_eq_div take_bit_eq_mod)
qed

lemma unat_GetWeakRefs: "unat (GetWeakRefs v) = unat v mod 2 ^ 32"
proof -
  have "unat (GetWeakRefs v) = take_bit 32 (take_bit 32 (unat v))"
    unfolding GetWeakRefs_def mask32
    by (simp only: unsigned_ucast_eq unsigned_take_bit_eq flip: take_bit_eq_mask) simp
  then show ?thesis
    by (simp add: take_bit_eq_mod)
qed

lemma unat_MakeRefPair: "unat (MakeRefPair s w) = unat s * 2 ^ 32 + unat w"
proof -
  have "unat s * 2 ^ 32 + unat w < 2 ^ 64"
    using unat32_less [of s] unat32_less [of w] by simp
  then show ?thesis
    unfolding MakeRefPair_def using unat32_less [of s] unat32_less [of w]
    by (simp add: unat_word_ariths unsigned_ucast_eq unsigned_push_bit_eq push_bit_eq_mult
        take_bit_eq_mod)
qed

lemma GetStrongRefs_MakeRefPair: "GetStrongRefs (MakeRefPair s w) = s"
proof -
  have "unat (GetStrongRefs (MakeRefPair s w)) = unat s"
    using unat32_less [of w] by (simp add: unat_GetStrongRefs unat_MakeRefPair)
  then show ?thesis
    by (simp add: word_unat_eq_iff)
qed

lemma GetWeakRefs_MakeRefPair: "GetWeakRefs (MakeRefPair s w) = w"
proof -
  have "unat (GetWeakRefs (MakeRefPair s w)) = unat w"
    using unat32_less [of w] by (simp add: unat_GetWeakRefs unat_MakeRefPair)
  then show ?thesis
    by (simp add: word_unat_eq_iff)
qed

lemma MakeRefPair_Get: "MakeRefPair (GetStrongRefs v) (GetWeakRefs v) = v"
  by (simp add: word_unat_eq_iff unat_MakeRefPair unat_GetStrongRefs unat_GetWeakRefs)

lemma unat_m1_32: "unat (- 1 :: 32 word) = 4294967295"
proof -
  have "(- 1 :: 32 word) = 4294967295" by simp
  then show ?thesis by (simp only: unsigned_numeral) simp
qed

lemma mod_add_wrap: "a < m \<Longrightarrow> (a + m) mod m = (a::nat)"
  by simp

lemma unat64_add: "unat (x + y :: 64 word) = (unat x + unat y) mod 18446744073709551616"
  by (simp add: unat_word_ariths)

lemma unat_refs: "unat (refs st) = strong_count st * 4294967296 + weak_count st"
  by (simp add: strong_count_def weak_count_def unat_GetStrongRefs unat_GetWeakRefs)

lemma strong_count_less: "strong_count st < 4294967296"
  unfolding strong_count_def by (rule unat32_less)

lemma weak_count_less: "weak_count st < 4294967296"
  unfolding weak_count_def by (rule unat32_less)

lemma counts_of_unat:
  assumes "unat (refs st) = a * 4294967296 + b" "b < 4294967296"
  shows "strong_count st = a" "weak_count st = b"
  using assms by (simp_all add: strong_count_def weak_count_def unat_GetStrongRefs unat_GetWeakRefs)

lemma unat_add_cases:
  fixes x y :: "64 word"
  shows "unat x + unat y < 18446744073709551616 \<Longrightarrow> unat (x + y) = unat x + unat y"
    and "unat x + unat y = a + 18446744073709551616 \<Longrightarrow> a < 18446744073709551616 \<Longrightarrow> unat (x + y) = a"
   apply (simp add: unat64_add)
  apply (simp only: unat64_add mod_add_wrap)
  done

text \<open>fetch_add(MakeRefPair(1, 0))\<close>

lemma add_strong_counts:
  assumes "refs st' = refs st + MakeRefPair 1 0"
  shows "weak_count st' = weak_count st"
    and "strong_count st' = (if strong_count st = 4294967295 then 0 else strong_count st + 1)"
proof -
  let ?S = "strong_count st" and ?W = "weak_count st"
  have u: "unat (refs st) + unat (MakeRefPair 1 0) = (?S + 1) * 4294967296 + ?W"
    by (simp add: unat_refs unat_MakeRefPair)
  have "unat (refs st') = (if ?S = 4294967295 then 0 else ?S + 1) * 4294967296 + ?W"
  proof (cases "?S = 4294967295")
    case True
    then have "unat (refs st) + unat (MakeRefPair 1 0) = ?W + 18446744073709551616"
      using u by simp
    then have "unat (refs st + MakeRefPair 1 0) = ?W"
      using weak_count_less [of st] by (intro unat_add_cases(2)) simp_all
    then show ?thesis using True assms by simp
  next
    case False
    then have "?S + 1 < 4294967296" using strong_count_less [of st] by simp
    then have "(?S + 1) * 4294967296 + ?W < 18446744073709551616"
      using weak_count_less [of st] by simp
    then have "unat (refs st + MakeRefPair 1 0) = (?S + 1) * 4294967296 + ?W"
      using u unat_add_cases(1) [of "refs st" "MakeRefPair 1 0"] by simp
    then show ?thesis using False assms by simp
  qed
  then show "weak_count st' = weak_count st"
    and "strong_count st' = (if strong_count st = 4294967295 then 0 else strong_count st + 1)"
    using weak_count_less [of st] by (simp_all add: counts_of_unat)
qed


text \<open>fetch_add(MakeRefPair(0, 1))\<close>

lemma add_weak_counts:
  assumes "refs st' = refs st + MakeRefPair 0 1"
  shows "weak_count st' = (if weak_count st = 4294967295 then 0 else weak_count st + 1)"
    and "strong_count st' =
      (if weak_count st = 4294967295
       then (if strong_count st = 4294967295 then 0 else strong_count st + 1)
       else strong_count st)"
proof -
  let ?S = "strong_count st" and ?W = "weak_count st"
  let ?W' = "if ?W = 4294967295 then 0 else ?W + 1"
  let ?S' = "if ?W = 4294967295 then (if ?S = 4294967295 then 0 else ?S + 1) else ?S"
  have u: "unat (refs st) + unat (MakeRefPair 0 1) = ?S * 4294967296 + ?W + 1"
    by (simp add: unat_refs unat_MakeRefPair)
  have "unat (refs st') = ?S' * 4294967296 + ?W'"
  proof (cases "?W = 4294967295 \<and> ?S = 4294967295")
    case True
    then have "unat (refs st) + unat (MakeRefPair 0 1) = 0 + 18446744073709551616"
      using u by simp
    then have "unat (refs st + MakeRefPair 0 1) = 0"
      by (intro unat_add_cases(2)) simp_all
    then show ?thesis using True assms by simp
  next
    case False
    then have "?S * 4294967296 + ?W + 1 < 18446744073709551616"
      using weak_count_less [of st] strong_count_less [of st] by arith
    then have "unat (refs st + MakeRefPair 0 1) = ?S * 4294967296 + ?W + 1"
      using u unat_add_cases(1) [of "refs st" "MakeRefPair 0 1"] by simp
    then show ?thesis using False assms by simp
  qed
  moreover have "?W' < 4294967296"
    using weak_count_less [of st] by simp
  ultimately show "weak_count st' = ?W'" and "strong_count st' = ?S'"
    by (rule counts_of_unat)+
qed

text \<open>fetch_sub(MakeRefPair(0, 1)) with a weak count of at least 1\<close>

lemma sub_weak_counts:
  assumes "refs st' = refs st - MakeRefPair 0 1" "0 < weak_count st"
  shows "weak_count st' = weak_count st - 1" and "strong_count st' = strong_count st"
proof -
  let ?S = "strong_count st" and ?W = "weak_count st"
  have one: "unat (MakeRefPair 0 1) = 1"
    by (simp add: unat_MakeRefPair)
  have "MakeRefPair 0 1 \<le> refs st"
    using assms(2) by (simp add: word_le_nat_alt one unat_refs)
  then have "unat (refs st - MakeRefPair 0 1) = unat (refs st) - 1"
    by (simp add: unat_sub one)
  then have "unat (refs st') = ?S * 4294967296 + (?W - 1)"
    using assms by (simp add: unat_refs)
  moreover have "?W - 1 < 4294967296"
    using weak_count_less [of st] by simp
  ultimately show "weak_count st' = ?W - 1" and "strong_count st' = ?S"
    by (rule counts_of_unat)+
qed

text \<open>fetch_add(MakeRefPair(-1, 1)) with a strong count of at least 1\<close>

lemma convert_counts:
  assumes "refs st' = refs st + MakeRefPair (- 1) 1" "0 < strong_count st"
  shows "weak_count st' = (if weak_count st = 4294967295 then 0 else weak_count st + 1)"
    and "strong_count st' =
      (if weak_count st = 4294967295 then strong_count st else strong_count st - 1)"
proof -
  let ?S = "strong_count st" and ?W = "weak_count st"
  let ?W' = "if ?W = 4294967295 then 0 else ?W + 1"
  let ?S' = "if ?W = 4294967295 then ?S else ?S - 1"
  obtain k where k: "?S = Suc k"
    using assms(2) by (cases "?S") simp_all
  have "unat (refs st) + unat (MakeRefPair (- 1) 1) = (?S' * 4294967296 + ?W') + 18446744073709551616"
    using k by (simp add: unat_refs unat_MakeRefPair unat_m1_32)
  moreover have "?S' * 4294967296 + ?W' < 18446744073709551616"
    using weak_count_less [of st] strong_count_less [of st] k by (cases "?W = 4294967295") simp_all
  ultimately have "unat (refs st + MakeRefPair (- 1) 1) = ?S' * 4294967296 + ?W'"
    by (rule unat_add_cases(2))
  then have "unat (refs st') = ?S' * 4294967296 + ?W'"
    using assms(1) by simp
  moreover have "?W' < 4294967296"
    using weak_count_less [of st] by simp
  ultimately show "weak_count st' = ?W'" and "strong_count st' = ?S'"
    by (rule counts_of_unat)+
qed

lemma refs_eq_0_1: "refs st = MakeRefPair 0 1 \<longleftrightarrow> strong_count st = 0 \<and> weak_count st = 1"
proof -
  have "refs st = MakeRefPair 0 1 \<longleftrightarrow> unat (refs st) = 1"
    by (simp add: word_unat_eq_iff unat_MakeRefPair)
  also have "\<dots> \<longleftrightarrow> strong_count st = 0 \<and> weak_count st = 1"
    by (cases "strong_count st") (simp_all add: unat_refs)
  finally show ?thesis .
qed

lemma strong_zero_iff: "GetStrongRefs (refs st) = 0 \<longleftrightarrow> strong_count st = 0"
  by (simp add: strong_count_def unat_eq_0)

lemma weak_zero_iff: "GetWeakRefs (refs st) = 0 \<longleftrightarrow> weak_count st = 0"
  by (simp add: weak_count_def unat_eq_0)

lemma strong_one_iff: "GetStrongRefs (refs st) = 1 \<longleftrightarrow> strong_count st = 1"
  by (simp add: strong_count_def word_unat_eq_iff)

lemma weak_pos_iff: "0 < GetWeakRefs (refs st) \<longleftrightarrow> 0 < weak_count st"
  by (simp add: weak_count_def word_less_nat_alt)

lemma strong_pos_iff: "0 < GetStrongRefs (refs st) \<longleftrightarrow> 0 < strong_count st"
  by (simp add: strong_count_def word_less_nat_alt)

section \<open>The operations on the two counts\<close>

lemma Ref_debug_step:
  assumes "Ref True st = Inr st'"
  shows "0 < strong_count st" "events st' = events st" "weak_count st' = weak_count st"
    "strong_count st' = (if strong_count st = 4294967295 then 0 else strong_count st + 1)"
proof -
  from assms have ok: "strong_count st \<noteq> 0" and st': "st' = st\<lparr>refs := refs st + MakeRefPair 1 0\<rparr>"
    by (auto simp add: Ref_def IncrementRefCount_def fetch_add_def strong_zero_iff split: if_splits)
  from ok show "0 < strong_count st" by simp
  from st' show "events st' = events st" by simp
  from st' have r: "refs st' = refs st + MakeRefPair 1 0" by simp
  from r show "weak_count st' = weak_count st" by (rule add_strong_counts)
  from r show "strong_count st' = (if strong_count st = 4294967295 then 0 else strong_count st + 1)"
    by (rule add_strong_counts)
qed

lemma WeakRef_debug_step:
  assumes "WeakRef True st = Inr st'"
  shows "strong_count st \<noteq> 0 \<or> weak_count st \<noteq> 0" "events st' = events st"
    "weak_count st' = (if weak_count st = 4294967295 then 0 else weak_count st + 1)"
    "strong_count st' =
      (if weak_count st = 4294967295
       then (if strong_count st = 4294967295 then 0 else strong_count st + 1)
       else strong_count st)"
proof -
  from assms have ok: "strong_count st \<noteq> 0 \<or> weak_count st \<noteq> 0"
    and st': "st' = st\<lparr>refs := refs st + MakeRefPair 0 1\<rparr>"
    by (auto simp add: WeakRef_def IncrementWeakRefCount_def fetch_add_def strong_zero_iff
        weak_zero_iff split: if_splits)
  from ok show "strong_count st \<noteq> 0 \<or> weak_count st \<noteq> 0" .
  from st' show "events st' = events st" by simp
  from st' have r: "refs st' = refs st + MakeRefPair 0 1" by simp
  from r show "weak_count st' = (if weak_count st = 4294967295 then 0 else weak_count st + 1)"
    by (rule add_weak_counts)
  from r show "strong_count st' =
      (if weak_count st = 4294967295
       then (if strong_count st = 4294967295 then 0 else strong_count st + 1)
       else strong_count st)"
    by (rule add_weak_counts)
qed

text \<open>WeakUnref with a weak count of at least 1, in either build.\<close>

lemma WeakUnref_pos:
  assumes "0 < weak_count st"
  shows "WeakUnref debug st =
    Inr (st\<lparr>refs := refs st - MakeRefPair 0 1,
             events := events st @
               (if strong_count st = 0 \<and> weak_count st = 1 then [UnrefBehaviorCalled] else [])\<rparr>)"
  using assms
  by (simp add: WeakUnref_def fetch_sub_def unref_behavior_def weak_pos_iff refs_eq_0_1)

lemma WeakUnref_debug_zero: "weak_count st = 0 \<Longrightarrow> WeakUnref True st = Inl CheckFailed"
  by (simp add: WeakUnref_def fetch_sub_def weak_pos_iff)

lemma WeakUnref_debug_step:
  assumes "WeakUnref True st = Inr st'"
  shows "0 < weak_count st" "weak_count st' = weak_count st - 1" "strong_count st' = strong_count st"
    "events st' = events st @
       (if strong_count st = 0 \<and> weak_count st = 1 then [UnrefBehaviorCalled] else [])"
proof -
  show pos: "0 < weak_count st"
    using assms WeakUnref_debug_zero [of st] by (cases "weak_count st = 0") simp_all
  from assms WeakUnref_pos [OF pos, of True]
  have st': "st' = st\<lparr>refs := refs st - MakeRefPair 0 1,
             events := events st @
               (if strong_count st = 0 \<and> weak_count st = 1 then [UnrefBehaviorCalled] else [])\<rparr>"
    by simp
  then have r: "refs st' = refs st - MakeRefPair 0 1" by simp
  from r pos show "weak_count st' = weak_count st - 1" by (rule sub_weak_counts)
  from r pos show "strong_count st' = strong_count st" by (rule sub_weak_counts)
  from st' show "events st' = events st @
       (if strong_count st = 0 \<and> weak_count st = 1 then [UnrefBehaviorCalled] else [])"
    by simp
qed

text \<open>The state in which Unref calls WeakUnref.\<close>

lemma Unref_unfold:
  "Unref debug st =
     (if debug \<and> strong_count st = 0 then Inl CheckFailed
      else WeakUnref debug
        (if strong_count st = 1 then Orphaned (snd (Unref_convert st)) else snd (Unref_convert st)))"
  by (simp add: Unref_def Unref_convert_def fetch_add_def strong_pos_iff strong_one_iff)

lemma Unref_convert_snd: "snd (Unref_convert st) = st\<lparr>refs := refs st + MakeRefPair (- 1) 1\<rparr>"
  by (simp add: Unref_convert_def fetch_add_def)

lemma Orphaned_counts [simp]:
  "strong_count (Orphaned st) = strong_count st" "weak_count (Orphaned st) = weak_count st"
  by (simp_all add: Orphaned_def strong_count_def weak_count_def)

lemma Unref_ok:
  assumes "0 < strong_count st" "weak_count st < 4294967295"
  shows "\<exists>st'. Unref debug st = Inr st' \<and>
     strong_count st' = strong_count st - 1 \<and> weak_count st' = weak_count st \<and>
     events st' = events st @ (if strong_count st = 1 then [OrphanedCalled] else []) @
       (if strong_count st = 1 \<and> weak_count st = 0 then [UnrefBehaviorCalled] else [])"
proof -
  define st1 where "st1 = snd (Unref_convert st)"
  define st2 where "st2 = (if strong_count st = 1 then Orphaned st1 else st1)"
  have r: "refs st1 = refs st + MakeRefPair (- 1) 1"
    by (simp add: st1_def Unref_convert_snd)
  have w1: "weak_count st1 = weak_count st + 1"
    and s1: "strong_count st1 = strong_count st - 1"
    using convert_counts [OF r assms(1)] assms(2) by simp_all
  have w2: "weak_count st2 = weak_count st + 1" and s2: "strong_count st2 = strong_count st - 1"
    by (simp_all add: st2_def w1 s1)
  have e2: "events st2 = events st @ (if strong_count st = 1 then [OrphanedCalled] else [])"
    by (simp add: st2_def st1_def Orphaned_def Unref_convert_snd)
  have u: "Unref debug st = WeakUnref debug st2"
    using assms(1) by (simp add: Unref_unfold st2_def st1_def)
  define st' where "st' = st2\<lparr>refs := refs st2 - MakeRefPair 0 1,
             events := events st2 @
               (if strong_count st2 = 0 \<and> weak_count st2 = 1 then [UnrefBehaviorCalled] else [])\<rparr>"
  have pos: "0 < weak_count st2" by (simp add: w2)
  have "WeakUnref debug st2 = Inr st'"
    unfolding st'_def by (rule WeakUnref_pos [OF pos])
  moreover have r': "refs st' = refs st2 - MakeRefPair 0 1" by (simp add: st'_def)
  have "weak_count st' = weak_count st" "strong_count st' = strong_count st - 1"
    using sub_weak_counts [OF r' pos] by (simp_all add: w2 s2)
  moreover have "events st' = events st @ (if strong_count st = 1 then [OrphanedCalled] else []) @
       (if strong_count st = 1 \<and> weak_count st = 0 then [UnrefBehaviorCalled] else [])"
    using assms(1) by (auto simp add: st'_def e2 s2 w2)
  ultimately show ?thesis using u by simp
qed

lemma Unref_debug_step:
  assumes "Unref True st = Inr st'"
  shows "0 < strong_count st" "weak_count st < 4294967295"
    "strong_count st' = strong_count st - 1" "weak_count st' = weak_count st"
    "events st' = events st @ (if strong_count st = 1 then [OrphanedCalled] else []) @
       (if strong_count st = 1 \<and> weak_count st = 0 then [UnrefBehaviorCalled] else [])"
proof -
  show pos: "0 < strong_count st"
    using assms by (cases "strong_count st = 0") (simp_all add: Unref_unfold)
  show lt: "weak_count st < 4294967295"
  proof (rule ccontr)
    assume "\<not> weak_count st < 4294967295"
    then have w: "weak_count st = 4294967295"
      using weak_count_less [of st] by simp
    define st2 where
      "st2 = (if strong_count st = 1 then Orphaned (snd (Unref_convert st)) else snd (Unref_convert st))"
    have "refs (snd (Unref_convert st)) = refs st + MakeRefPair (- 1) 1"
      by (simp add: Unref_convert_snd)
    from convert_counts(1) [OF this pos] have "weak_count st2 = 0"
      using w by (simp add: st2_def)
    then have "WeakUnref True st2 = Inl CheckFailed"
      by (rule WeakUnref_debug_zero)
    then show False
      using assms pos by (simp add: Unref_unfold st2_def)
  qed
  from Unref_ok [OF pos lt, of True] assms
  show "strong_count st' = strong_count st - 1" "weak_count st' = weak_count st"
    "events st' = events st @ (if strong_count st = 1 then [OrphanedCalled] else []) @
       (if strong_count st = 1 \<and> weak_count st = 0 then [UnrefBehaviorCalled] else [])"
    by auto
qed

section \<open>Runs of operations\<close>

lemma run_ops_zero:
  assumes "strong_count st = 0" "weak_count st = 0" "run_ops True ops st = Inr st'"
  shows "ops = []"
proof (cases ops)
  case Nil
  then show ?thesis .
next
  case (Cons x xs)
  then obtain st1 where "apply_op True x st = Inr st1"
    using assms(3) by (auto split: sum.splits)
  then have False
    using assms(1,2) Ref_debug_step(1) [of st st1] WeakRef_debug_step(1) [of st st1]
      WeakUnref_debug_step(1) [of st st1] Unref_debug_step(1) [of st st1]
    by (cases x) auto
  then show ?thesis ..
qed

text \<open>One step never gains more than it counts.\<close>


lemma step_bounds:
  assumes "apply_op True x st = Inr st1"
  shows "weak_count st1 + count_list [x] OpWeakUnref \<le> weak_count st + count_list [x] OpWeakRef"
    and "strong_count st1 + count_list [x] OpUnref + weak_count st1 + count_list [x] OpWeakUnref
       \<le> strong_count st + count_list [x] OpRef + weak_count st + count_list [x] OpWeakRef"
  using assms Ref_debug_step [of st st1] WeakRef_debug_step [of st st1]
      WeakUnref_debug_step [of st st1] Unref_debug_step [of st st1]
  by (cases x; simp split: if_splits)+

lemma run_ops_bounds:
  assumes "run_ops True ops st = Inr st'"
  shows "weak_count st' + count_list ops OpWeakUnref \<le> weak_count st + count_list ops OpWeakRef \<and>
     strong_count st' + count_list ops OpUnref + weak_count st' + count_list ops OpWeakUnref
       \<le> strong_count st + count_list ops OpRef + weak_count st + count_list ops OpWeakRef"
  using assms
proof (induction ops arbitrary: st)
  case Nil
  then show ?case by simp
next
  case (Cons x xs)
  then obtain st1 where h: "apply_op True x st = Inr st1" and t: "run_ops True xs st1 = Inr st'"
    by (auto split: sum.splits)
  from step_bounds [OF h] Cons.IH [OF t] show ?case
    by (cases x) simp_all
qed


lemma step_exact:
  assumes "apply_op True x st = Inr st1"
    and "weak_count st1 + count_list [x] OpWeakUnref = weak_count st + count_list [x] OpWeakRef"
    and "strong_count st1 + count_list [x] OpUnref = strong_count st + count_list [x] OpRef"
  shows "events st1 = events st @
      (if 0 < strong_count st \<and> strong_count st1 = 0 then [OrphanedCalled] else []) @
      (if (strong_count st \<noteq> 0 \<or> weak_count st \<noteq> 0) \<and> strong_count st1 = 0 \<and> weak_count st1 = 0
       then [UnrefBehaviorCalled] else [])"
    and "strong_count st = 0 \<longrightarrow> strong_count st1 = 0"
  using assms Ref_debug_step [of st st1] WeakRef_debug_step [of st st1]
      WeakUnref_debug_step [of st st1] Unref_debug_step [of st st1]
  by (cases x; auto split: if_splits)+

lemma run_ops_exact:
  assumes "run_ops True ops st = Inr st'"
    and "weak_count st' + count_list ops OpWeakUnref = weak_count st + count_list ops OpWeakRef"
    and "strong_count st' + count_list ops OpUnref = strong_count st + count_list ops OpRef"
  shows "(strong_count st = 0 \<longrightarrow> strong_count st' = 0) \<and>
    events st' = events st @
      (if 0 < strong_count st \<and> strong_count st' = 0 then [OrphanedCalled] else []) @
      (if (strong_count st \<noteq> 0 \<or> weak_count st \<noteq> 0) \<and> strong_count st' = 0 \<and> weak_count st' = 0
       then [UnrefBehaviorCalled] else [])"
  using assms
proof (induction ops arbitrary: st)
  case Nil
  then show ?case by auto
next
  case (Cons x xs)
  then obtain st1 where h: "apply_op True x st = Inr st1" and t: "run_ops True xs st1 = Inr st'"
    by (auto split: sum.splits)
  note hb = step_bounds [OF h] and tb = run_ops_bounds [OF t]
  have c: "\<And>y. count_list (x # xs) y = count_list [x] y + count_list xs y"
    by simp
  have hw: "weak_count st1 + count_list [x] OpWeakUnref = weak_count st + count_list [x] OpWeakRef"
    and tw: "weak_count st' + count_list xs OpWeakUnref = weak_count st1 + count_list xs OpWeakRef"
    using hb(1) tb Cons.prems(2) unfolding c by linarith+
  have hs: "strong_count st1 + count_list [x] OpUnref = strong_count st + count_list [x] OpRef"
    and ts: "strong_count st' + count_list xs OpUnref = strong_count st1 + count_list xs OpRef"
    using hb tb Cons.prems(2,3) unfolding c by linarith+
  note he = step_exact [OF h hw hs] and te = Cons.IH [OF t tw ts]
  have nz: "strong_count st \<noteq> 0 \<or> weak_count st \<noteq> 0"
    using run_ops_zero [OF _ _ Cons.prems(1)] by auto
  have z1: "strong_count st1 = 0 \<and> weak_count st1 = 0 \<longrightarrow> st' = st1"
    using run_ops_zero [OF _ _ t] t by auto
  show ?case
  proof (cases "strong_count st1 = 0 \<and> weak_count st1 = 0")
    case True
    with z1 have "st' = st1" by simp
    with he True nz show ?thesis by auto
  next
    case False
    with he te nz show ?thesis by auto
  qed
qed

lemma run_ops_matched:
  assumes "run_ops True ops DualRefCounted_default = Inr st'" "matched ops"
  shows "events st' = [OrphanedCalled, UnrefBehaviorCalled]"
    and "strong_count st' = 0" and "weak_count st' = 0"
proof -
  let ?st = DualRefCounted_default
  have s0: "strong_count ?st = 1" and w0: "weak_count ?st = 0" and e0: "events ?st = []"
    by (simp_all add: DualRefCounted_default_def DualRefCounted_ctor_def strong_count_def
        weak_count_def GetStrongRefs_MakeRefPair GetWeakRefs_MakeRefPair)
  from run_ops_bounds [OF assms(1)] assms(2)
  have w: "weak_count st' = 0" and s: "strong_count st' = 0"
    unfolding matched_def s0 w0 by linarith+
  from run_ops_exact [OF assms(1)] assms(2) s w
  show "events st' = [OrphanedCalled, UnrefBehaviorCalled]"
    unfolding matched_def s0 w0 e0 by simp
  from s w show "strong_count st' = 0" and "weak_count st' = 0" .
qed

lemma release_of_debug_step: "apply_op True x st = Inr st1 \<Longrightarrow> apply_op False x st = Inr st1"
  by (cases x)
    (auto simp add: Ref_def IncrementRefCount_def WeakRef_def IncrementWeakRefCount_def
      WeakUnref_def Unref_def Let_def split_def split: if_splits)

lemma release_of_debug_run: "run_ops True ops st = Inr st' \<Longrightarrow> run_ops False ops st = Inr st'"
proof (induction ops arbitrary: st)
  case Nil
  then show ?case by simp
next
  case (Cons x xs)
  then obtain st1 where h: "apply_op True x st = Inr st1" and t: "run_ops True xs st1 = Inr st'"
    by (auto split: sum.splits)
  from release_of_debug_step [OF h] Cons.IH [OF t] show ?case by simp
qed

section \<open>The compare-exchange loop\<close>

lemma RefIfNonZero_loop_exact:
  assumes "refs st = prev"
  shows "RefIfNonZero_loop interference prev st =
     (case find (\<lambda>v. GetStrongRefs v = 0) (prev # interference) of
        Some v \<Rightarrow> (False, v, st\<lparr>refs := v\<rparr>)
      | None \<Rightarrow>
          (True, last (prev # interference),
           st\<lparr>refs := last (prev # interference) + MakeRefPair 1 0\<rparr>))"
  using assms
proof (induction interference arbitrary: prev st)
  case Nil
  then show ?case by auto
next
  case (Cons v vs)
  have "refs (st\<lparr>refs := v\<rparr>) = v" by simp
  from Cons.IH [OF this] Cons.prems show ?case
    by (auto split: option.splits)
qed

lemma RefIfNonZero_exact:
  "RefIfNonZero interference st =
     (case find (\<lambda>v. GetStrongRefs v = 0) (refs st # interference) of
        Some v \<Rightarrow> (False, v, st\<lparr>refs := v\<rparr>)
      | None \<Rightarrow>
          (True, last (refs st # interference),
           st\<lparr>refs := last (refs st # interference) + MakeRefPair 1 0\<rparr>))"
  unfolding RefIfNonZero_def by (rule RefIfNonZero_loop_exact) simp

lemma add_strong_halves:
  "GetWeakRefs (v + MakeRefPair 1 0) = GetWeakRefs v"
  "unat (GetStrongRefs v) < 4294967295 \<Longrightarrow>
     unat (GetStrongRefs (v + MakeRefPair 1 0)) = unat (GetStrongRefs v) + 1"
proof -
  define st :: DualRefCounted where "st = \<lparr>refs = v, events = []\<rparr>"
  define st' :: DualRefCounted where "st' = \<lparr>refs = v + MakeRefPair 1 0, events = []\<rparr>"
  have r: "refs st' = refs st + MakeRefPair 1 0"
    by (simp add: st_def st'_def)
  have "unat (GetWeakRefs (refs st')) = unat (GetWeakRefs (refs st))"
    using add_strong_counts(1) [OF r] by (simp add: weak_count_def)
  then show "GetWeakRefs (v + MakeRefPair 1 0) = GetWeakRefs v"
    by (simp add: word_unat_eq_iff st_def st'_def)
  show "unat (GetStrongRefs (v + MakeRefPair 1 0)) = unat (GetStrongRefs v) + 1"
    if "unat (GetStrongRefs v) < 4294967295"
    using add_strong_counts(2) [OF r] that
    by (simp add: strong_count_def st_def st'_def)
qed

section \<open>The pump of ForwardCall\<close>

lemma ForEach_push:
  "ForEach msgs stream_end (\<lambda>msg s. (Success, handler_call (SpawnPushMessage msg) s)) s =
     (stream_end, s\<lparr>handler_log := handler_log s @ map SpawnPushMessage msgs\<rparr>)"
  by (induction msgs arbitrary: s) (simp_all add: handler_call_def)

lemma ForEach_forward:
  "ForEach msgs stream_end (\<lambda>msg s. (Success, initiator_call (InitiatorSpawnPushMessage msg) s)) s =
     (stream_end, s\<lparr>initiator_log := initiator_log s @ map InitiatorSpawnPushMessage msgs\<rparr>)"
  by (induction msgs arbitrary: s) (simp_all add: initiator_call_def)

lemma read_messages_result:
  "snd (read_messages client_messages client_messages_end s) =
     s\<lparr>initiator_log := initiator_log s @ map InitiatorSpawnPushMessage client_messages @
          [SpawnFinishSends]\<rparr>"
  by (simp add: read_messages_def Seq_def ForEach_forward) (simp add: initiator_call_def)

text \<open>Whether the pump cancels the initiator.\<close>

lemma read_the_things_result:
  "snd (read_the_things ini obs s) =
     (let cancel =
            (case server_initial_metadata ini of
               NoValue \<Rightarrow> True
             | Value None \<Rightarrow> False
             | Value (Some m) \<Rightarrow> server_messages_end ini = Failure);
          forwarded =
            (case server_initial_metadata ini of
               Value (Some m) \<Rightarrow>
                 SpawnPushServerInitialMetadata m # map SpawnPushMessage (server_messages ini)
             | _ \<Rightarrow> []);
          md = server_trailing_metadata ini (initiator_cancelled s \<or> cancel)
      in s\<lparr>handler_log := handler_log s @ forwarded @
               [OnServerTrailingMetadataFromInitiator md, SpawnPushServerTrailingMetadata (obs md)],
            initiator_cancelled := initiator_cancelled s \<or> cancel\<rparr>)"
proof (cases "server_initial_metadata ini")
  case NoValue
  then show ?thesis
    by (simp add: read_the_things_def Seq_def TrySeq_def CancelIfFails_def
        PullServerInitialMetadata_def PullServerTrailingMetadata_def handler_call_def Let_def)
next
  case (Value md)
  show ?thesis
  proof (cases md)
    case None
    with Value show ?thesis
      by (simp add: read_the_things_def Seq_def TrySeq_def CancelIfFails_def
          PullServerInitialMetadata_def PullServerTrailingMetadata_def handler_call_def Let_def)
  next
    case (Some m)
    with Value show ?thesis
      by (cases "server_messages_end ini")
        (simp_all add: read_the_things_def Seq_def TrySeq_def CancelIfFails_def
          PullServerInitialMetadata_def PullServerTrailingMetadata_def ForEach_push Let_def,
         simp_all add: handler_call_def)
  qed
qed

lemma ForwardCall_handler_log:
  "handler_log (ForwardCall cm ce ini obs) =
     (case server_initial_metadata ini of
        Value (Some m) \<Rightarrow>
          SpawnPushServerInitialMetadata m # map SpawnPushMessage (server_messages ini)
      | _ \<Rightarrow> []) @
     [OnServerTrailingMetadataFromInitiator
        (server_trailing_metadata ini (initiator_cancelled (ForwardCall cm ce ini obs))),
      SpawnPushServerTrailingMetadata
        (obs (server_trailing_metadata ini (initiator_cancelled (ForwardCall cm ce ini obs))))]"
  and ForwardCall_cancelled:
  "initiator_cancelled (ForwardCall cm ce ini obs) =
     (case server_initial_metadata ini of
        NoValue \<Rightarrow> True
      | Value None \<Rightarrow> False
      | Value (Some m) \<Rightarrow> server_messages_end ini = Failure)"
  by (simp_all add: ForwardCall_def read_the_things_result read_messages_result spine_start_def
      Let_def)

section \<open>Reserved slots\<close>

lemma reserve_slots_fst:
  "distinct candidates \<Longrightarrow>
   fst (reserve_slots candidates count alloc) =
     take count (filter (\<lambda>i. \<not> bit alloc i) candidates)"
proof (induction candidates arbitrary: count alloc)
  case Nil
  then show ?case by simp
next
  case (Cons slot candidates)
  show ?case
  proof (cases "count = 0 \<or> bit alloc slot")
    case True
    with Cons show ?thesis by auto
  next
    case False
    then obtain c where c: "count = Suc c" by (cases count) auto
    have "filter (\<lambda>i. \<not> bit (set_bit slot alloc) i) candidates =
        filter (\<lambda>i. \<not> bit alloc i) candidates"
      using Cons.prems by (intro filter_cong) (auto simp add: bit_set_bit_iff)
    with Cons False c show ?thesis
      by (simp add: split_def)
  qed
qed

lemma assigned_slots_eq:
  "assigned_slots kMaxParticipants n sync =
     take n (filter (\<lambda>i. \<not> bit (allocated sync) i) [0..<kMaxParticipants])"
  by (simp add: assigned_slots_def reserve_slots_fst)

lemma assigned_slots_sorted: "sorted_wrt (<) (assigned_slots kMaxParticipants n sync)"
proof -
  have "sorted_wrt (<) (filter (\<lambda>i. \<not> bit (allocated sync) i) [0..<kMaxParticipants])"
    by (simp add: sorted_wrt_filter)
  then show ?thesis
    unfolding assigned_slots_eq by (rule sorted_wrt_take)
qed

lemma assigned_slots_free:
  assumes "i \<in> set (assigned_slots kMaxParticipants n sync)"
  shows "i < kMaxParticipants" "\<not> bit (allocated sync) i"
proof -
  from assms have "i \<in> set (filter (\<lambda>i. \<not> bit (allocated sync) i) [0..<kMaxParticipants])"
    unfolding assigned_slots_eq by (rule in_set_takeD)
  then show "i < kMaxParticipants" "\<not> bit (allocated sync) i"
    by simp_all
qed

section \<open>Wakers over a history\<close>







section \<open>Properties of DualRefCounted\<close>

text \<open>
  Claim C1, as stated for every sequence with matched totals, fails: a \<^verbatim>\<open>Ref()\<close> taken
  through a weak ref after the strong count has reached zero is matched by its \<^verbatim>\<open>Unref()\<close>,
  and in the build without checks \<^verbatim>\<open>Orphaned()\<close> then runs twice before the single destroy;
  in the debug build the \<^verbatim>\<open>CHECK_NE(strong_refs, 0u)\<close> of \<^verbatim>\<open>IncrementRefCount\<close> aborts
  the run.
\<close>

theorem refcount_conservation_counterexample:
  "matched [OpWeakRef, OpUnref, OpRef, OpUnref, OpWeakUnref] \<and>
   run_ops False [OpWeakRef, OpUnref, OpRef, OpUnref, OpWeakUnref] DualRefCounted_default =
     Inr \<lparr>refs = 0, events = [OrphanedCalled, OrphanedCalled, UnrefBehaviorCalled]\<rparr> \<and>
   run_ops True [OpWeakRef, OpUnref, OpRef, OpUnref, OpWeakUnref] DualRefCounted_default =
     Inl CheckFailed"
proof -
  have "matched [OpWeakRef, OpUnref, OpRef, OpUnref, OpWeakUnref]"
    by (simp add: matched_def)
  moreover have
    "run_ops False [OpWeakRef, OpUnref, OpRef, OpUnref, OpWeakUnref] DualRefCounted_default =
     Inr \<lparr>refs = 0, events = [OrphanedCalled, OrphanedCalled, UnrefBehaviorCalled]\<rparr>"
    by code_simp
  moreover have
    "run_ops True [OpWeakRef, OpUnref, OpRef, OpUnref, OpWeakUnref] DualRefCounted_default =
     Inl CheckFailed"
    by code_simp
  ultimately show ?thesis by simp
qed

text \<open>
  Claim C1, amended (refcount conservation): for every finite sequence of \<^verbatim>\<open>Ref\<close>,
  \<^verbatim>\<open>Unref\<close>, \<^verbatim>\<open>WeakRef\<close> and \<^verbatim>\<open>WeakUnref\<close> operations on an object created with
  strong = 1 and weak = 0, with matched totals and with no operation failing its debug
  check (\<^verbatim>\<open>Ref\<close> and \<^verbatim>\<open>Unref\<close> find a strong count of at least 1, \<^verbatim>\<open>WeakRef\<close> finds the
  pair nonzero, \<^verbatim>\<open>WeakUnref\<close> finds a weak count of at least 1), the calls leaving the class
  are exactly \<^verbatim>\<open>Orphaned()\<close> once and then the destroy behaviour once, both counts end at
  zero, and the build without checks runs the same way.
\<close>

theorem refcount_conservation:
  assumes "matched ops" and "run_ops True ops DualRefCounted_default = Inr st'"
  shows "events st' = [OrphanedCalled, UnrefBehaviorCalled] \<and>
    strong_count st' = 0 \<and> weak_count st' = 0 \<and>
    run_ops False ops DualRefCounted_default = Inr st'"
  using run_ops_matched [OF assms(2,1)] release_of_debug_run [OF assms(2)] by simp

text \<open>The amended C1 at a concrete sequence.\<close>

theorem refcount_conservation_witness:
  "matched [OpRef, OpWeakRef, OpUnref, OpWeakUnref, OpUnref] \<and>
   run_ops True [OpRef, OpWeakRef, OpUnref, OpWeakUnref, OpUnref] DualRefCounted_default =
     Inr \<lparr>refs = 0, events = [OrphanedCalled, UnrefBehaviorCalled]\<rparr> \<and>
   run_ops False [OpRef, OpWeakRef, OpUnref, OpWeakUnref, OpUnref] DualRefCounted_default =
     Inr \<lparr>refs = 0, events = [OrphanedCalled, UnrefBehaviorCalled]\<rparr>"
proof -
  have m: "matched [OpRef, OpWeakRef, OpUnref, OpWeakUnref, OpUnref]"
    by (simp add: matched_def)
  have r: "run_ops True [OpRef, OpWeakRef, OpUnref, OpWeakUnref, OpUnref] DualRefCounted_default =
     Inr \<lparr>refs = 0, events = [OrphanedCalled, UnrefBehaviorCalled]\<rparr>"
    by code_simp
  show ?thesis
    using m r refcount_conservation [OF m r] by simp
qed

text \<open>
  Claim C2, as stated for every strong count of at least 1, fails when the weak count is
  \<open>2 ^ 32 - 1\<close>: the addition of \<^verbatim>\<open>MakeRefPair(-1, 1)\<close> carries out of the weak half, so the
  strong count is not decremented, the weak count becomes 0 and the total changes.
\<close>

theorem Unref_fused_counterexample:
  "1 \<le> strong_count \<lparr>refs = 0x1FFFFFFFF, events = []\<rparr> \<and>
   strong_count (snd (Unref_convert \<lparr>refs = 0x1FFFFFFFF, events = []\<rparr>)) \<noteq>
     strong_count \<lparr>refs = 0x1FFFFFFFF, events = []\<rparr> - 1 \<and>
   weak_count (snd (Unref_convert \<lparr>refs = 0x1FFFFFFFF, events = []\<rparr>)) \<noteq>
     weak_count \<lparr>refs = 0x1FFFFFFFF, events = []\<rparr> + 1 \<and>
   strong_count (snd (Unref_convert \<lparr>refs = 0x1FFFFFFFF, events = []\<rparr>)) +
     weak_count (snd (Unref_convert \<lparr>refs = 0x1FFFFFFFF, events = []\<rparr>)) \<noteq>
     strong_count \<lparr>refs = 0x1FFFFFFFF, events = []\<rparr> +
     weak_count \<lparr>refs = 0x1FFFFFFFF, events = []\<rparr>"
proof -
  have c: "snd (Unref_convert \<lparr>refs = 0x1FFFFFFFF, events = []\<rparr>) =
      \<lparr>refs = 0x100000000, events = []\<rparr>"
    by code_simp
  have "strong_count \<lparr>refs = 0x1FFFFFFFF, events = []\<rparr> = 1"
    and "weak_count \<lparr>refs = 0x1FFFFFFFF, events = []\<rparr> = 4294967295"
    and "strong_count \<lparr>refs = 0x100000000, events = []\<rparr> = 1"
    and "weak_count \<lparr>refs = 0x100000000, events = []\<rparr> = 0"
    by (simp_all add: strong_count_def weak_count_def GetStrongRefs_def GetWeakRefs_def)
  then show ?thesis
    unfolding c by simp
qed

text \<open>
  Claim C2, amended: \<^verbatim>\<open>Unref()\<close> on an object with strong count at least 1 and weak count
  below \<open>2 ^ 32 - 1\<close> performs one fused update that decrements the strong count by one and
  increments the weak count by one, so that the total is unchanged in the state in which
  \<^verbatim>\<open>Orphaned()\<close> runs; it calls \<^verbatim>\<open>Orphaned()\<close> if and only if the strong count before the
  update was exactly 1, and then performs one \<^verbatim>\<open>WeakUnref()\<close>, which destroys the object
  exactly when no weak ref is left.
\<close>

theorem Unref_fused:
  assumes "1 \<le> strong_count st" and "weak_count st < 2 ^ 32 - 1"
  shows "fst (Unref_convert st) = refs st \<and>
    strong_count (snd (Unref_convert st)) = strong_count st - 1 \<and>
    weak_count (snd (Unref_convert st)) = weak_count st + 1 \<and>
    strong_count (snd (Unref_convert st)) + weak_count (snd (Unref_convert st)) =
      strong_count st + weak_count st \<and>
    refs (Orphaned (snd (Unref_convert st))) = refs (snd (Unref_convert st)) \<and>
    Unref debug st =
      WeakUnref debug
        (if strong_count st = 1 then Orphaned (snd (Unref_convert st))
         else snd (Unref_convert st)) \<and>
    (\<exists>st'. Unref debug st = Inr st' \<and>
       strong_count st' = strong_count st - 1 \<and> weak_count st' = weak_count st \<and>
       events st' = events st @ (if strong_count st = 1 then [OrphanedCalled] else []) @
         (if strong_count st = 1 \<and> weak_count st = 0 then [UnrefBehaviorCalled] else []))"
proof -
  have pos: "0 < strong_count st" and lt: "weak_count st < 4294967295"
    using assms by simp_all
  have r: "refs (snd (Unref_convert st)) = refs st + MakeRefPair (- 1) 1"
    by (simp add: Unref_convert_snd)
  have "strong_count (snd (Unref_convert st)) = strong_count st - 1"
    and "weak_count (snd (Unref_convert st)) = weak_count st + 1"
    using convert_counts [OF r pos] lt by simp_all
  moreover have "fst (Unref_convert st) = refs st"
    by (simp add: Unref_convert_def fetch_add_def)
  moreover have "refs (Orphaned (snd (Unref_convert st))) = refs (snd (Unref_convert st))"
    by (simp add: Orphaned_def)
  moreover have "Unref debug st =
      WeakUnref debug
        (if strong_count st = 1 then Orphaned (snd (Unref_convert st))
         else snd (Unref_convert st))"
    using pos by (simp add: Unref_unfold)
  ultimately show ?thesis
    using Unref_ok [OF pos lt, of debug] pos by simp
qed

text \<open>The amended C2 at the last strong ref of an object without weak refs.\<close>

theorem Unref_fused_witness:
  "1 \<le> strong_count \<lparr>refs = 0x100000000, events = []\<rparr> \<and>
   weak_count \<lparr>refs = 0x100000000, events = []\<rparr> < 2 ^ 32 - 1 \<and>
   strong_count (snd (Unref_convert \<lparr>refs = 0x100000000, events = []\<rparr>)) = 0 \<and>
   weak_count (snd (Unref_convert \<lparr>refs = 0x100000000, events = []\<rparr>)) = 1 \<and>
   Unref True \<lparr>refs = 0x100000000, events = []\<rparr> =
     Inr \<lparr>refs = 0, events = [OrphanedCalled, UnrefBehaviorCalled]\<rparr>"
proof -
  have s: "strong_count \<lparr>refs = 0x100000000, events = []\<rparr> = 1"
    and w: "weak_count \<lparr>refs = 0x100000000, events = []\<rparr> = 0"
    by (simp_all add: strong_count_def weak_count_def GetStrongRefs_def GetWeakRefs_def)
  have h1: "1 \<le> strong_count \<lparr>refs = 0x100000000, events = []\<rparr>"
    and h2: "weak_count \<lparr>refs = 0x100000000, events = []\<rparr> < 2 ^ 32 - 1"
    by (simp_all add: s w)
  have u: "Unref True \<lparr>refs = 0x100000000, events = []\<rparr> =
     Inr \<lparr>refs = 0, events = [OrphanedCalled, UnrefBehaviorCalled]\<rparr>"
    by code_simp
  show ?thesis
    using Unref_fused [OF h1 h2, of True] h1 h2 u by (simp add: s w)
qed

text \<open>
  Claim C3: \<^verbatim>\<open>WeakUnref()\<close> on an object with weak count at least 1 returns, in either build,
  having decremented the weak count by one and left the strong count alone; it invokes the
  destroy behaviour (at most once) if and only if the ref-pair it found was
  (strong = 0, weak = 1), which is exactly when it leaves both counts at zero.
\<close>

theorem WeakUnref_destroys_at_0_1:
  assumes "1 \<le> weak_count st"
  shows "\<exists>st'. WeakUnref debug st = Inr st' \<and>
     weak_count st' = weak_count st - 1 \<and> strong_count st' = strong_count st \<and>
     events st' = events st @ (if refs st = MakeRefPair 0 1 then [UnrefBehaviorCalled] else []) \<and>
     (refs st = MakeRefPair 0 1 \<longleftrightarrow> strong_count st = 0 \<and> weak_count st = 1) \<and>
     (refs st = MakeRefPair 0 1 \<longleftrightarrow> strong_count st' = 0 \<and> weak_count st' = 0)"
proof -
  have pos: "0 < weak_count st" using assms by simp
  define st' where "st' = st\<lparr>refs := refs st - MakeRefPair 0 1,
             events := events st @
               (if strong_count st = 0 \<and> weak_count st = 1 then [UnrefBehaviorCalled] else [])\<rparr>"
  have u: "WeakUnref debug st = Inr st'"
    unfolding st'_def by (rule WeakUnref_pos [OF pos])
  have r: "refs st' = refs st - MakeRefPair 0 1" by (simp add: st'_def)
  have c: "weak_count st' = weak_count st - 1" "strong_count st' = strong_count st"
    using sub_weak_counts [OF r pos] by simp_all
  have e: "events st' = events st @ (if refs st = MakeRefPair 0 1 then [UnrefBehaviorCalled] else [])"
    by (simp add: st'_def refs_eq_0_1)
  have "(refs st = MakeRefPair 0 1) = (strong_count st' = 0 \<and> weak_count st' = 0)"
    using pos c by (auto simp add: refs_eq_0_1)
  with u c e show ?thesis
    by (simp add: refs_eq_0_1)
qed

text \<open>C3 at the last weak ref of an orphaned object.\<close>

theorem WeakUnref_destroys_at_0_1_witness:
  "1 \<le> weak_count \<lparr>refs = 1, events = [OrphanedCalled]\<rparr> \<and>
   WeakUnref True \<lparr>refs = 1, events = [OrphanedCalled]\<rparr> =
     Inr \<lparr>refs = 0, events = [OrphanedCalled, UnrefBehaviorCalled]\<rparr> \<and>
   (\<exists>st'. WeakUnref True \<lparr>refs = 1, events = [OrphanedCalled]\<rparr> = Inr st' \<and>
      strong_count st' = 0 \<and> weak_count st' = 0)"
proof -
  have h: "1 \<le> weak_count \<lparr>refs = 1, events = [OrphanedCalled]\<rparr>"
    by (simp add: weak_count_def GetWeakRefs_def)
  have p: "refs \<lparr>refs = 1, events = [OrphanedCalled]\<rparr> = MakeRefPair 0 1"
    by (simp add: MakeRefPair_def)
  have u: "WeakUnref True \<lparr>refs = 1, events = [OrphanedCalled]\<rparr> =
     Inr \<lparr>refs = 0, events = [OrphanedCalled, UnrefBehaviorCalled]\<rparr>"
    by code_simp
  from WeakUnref_destroys_at_0_1 [OF h, of True] p h u show ?thesis
    by auto
qed

text \<open>
  Claim C4, as stated, fails at a strong count of \<open>2 ^ 32 - 1\<close>: \<^verbatim>\<open>RefIfNonZero()\<close> returns a
  handle, and the addition of \<^verbatim>\<open>MakeRefPair(1, 0)\<close> wraps the strong count to 0 instead of
  incrementing it by one.
\<close>

theorem RefIfNonZero_wrap_counterexample:
  "RefIfNonZero [] \<lparr>refs = 0xFFFFFFFF00000000, events = []\<rparr> =
     (True, 0xFFFFFFFF00000000, \<lparr>refs = 0, events = []\<rparr>) \<and>
   strong_count \<lparr>refs = 0xFFFFFFFF00000000, events = []\<rparr> = 4294967295 \<and>
   strong_count \<lparr>refs = 0, events = []\<rparr> = 0"
proof -
  have "RefIfNonZero [] \<lparr>refs = 0xFFFFFFFF00000000, events = []\<rparr> =
     (True, 0xFFFFFFFF00000000, \<lparr>refs = 0, events = []\<rparr>)"
    by code_simp
  moreover have "strong_count \<lparr>refs = 0xFFFFFFFF00000000, events = []\<rparr> = 4294967295"
    and "strong_count \<lparr>refs = 0, events = []\<rparr> = 0"
    by (simp_all add: strong_count_def GetStrongRefs_def)
  ultimately show ?thesis by simp
qed

text \<open>
  Claim C4, amended: \<^verbatim>\<open>RefIfNonZero()\<close> returns a handle if and only if the strong count is
  greater than zero in the ref-pair on which its compare-exchange succeeds. That ref-pair
  is the last one it loads: the initial value of \<^verbatim>\<open>refs_\<close> and every value another thread
  stored before a failed compare-exchange had a strong count greater than zero. With a
  handle, the store is that ref-pair plus \<^verbatim>\<open>MakeRefPair(1, 0)\<close>: the weak count as it was and
  the strong count incremented by one, provided it was below \<open>2 ^ 32 - 1\<close>. Without a
  handle, the call stopped at the first ref-pair it loaded whose strong count is zero and
  stored nothing; when the strong count is zero at the call, the object is unchanged
  whatever other threads do. The first conjunct fixes the result for every interference.
\<close>

theorem RefIfNonZero_result:
  assumes "RefIfNonZero interference st = (handle, prev_ref_pair, st')"
  shows "RefIfNonZero interference st =
      (case find (\<lambda>v. GetStrongRefs v = 0) (refs st # interference) of
         Some v \<Rightarrow> (False, v, st\<lparr>refs := v\<rparr>)
       | None \<Rightarrow>
           (True, last (refs st # interference),
            st\<lparr>refs := last (refs st # interference) + MakeRefPair 1 0\<rparr>)) \<and>
    (handle \<longleftrightarrow> 0 < GetStrongRefs prev_ref_pair) \<and>
    (handle \<longrightarrow>
       prev_ref_pair = last (refs st # interference) \<and>
       (\<forall>v \<in> set (refs st # interference). 0 < GetStrongRefs v) \<and>
       st' = st\<lparr>refs := prev_ref_pair + MakeRefPair 1 0\<rparr> \<and>
       GetWeakRefs (refs st') = GetWeakRefs prev_ref_pair \<and>
       (unat (GetStrongRefs prev_ref_pair) < 2 ^ 32 - 1 \<longrightarrow>
          unat (GetStrongRefs (refs st')) = unat (GetStrongRefs prev_ref_pair) + 1)) \<and>
    (\<not> handle \<longrightarrow>
       find (\<lambda>v. GetStrongRefs v = 0) (refs st # interference) = Some prev_ref_pair \<and>
       st' = st\<lparr>refs := prev_ref_pair\<rparr>) \<and>
    (GetStrongRefs (refs st) = 0 \<longrightarrow> \<not> handle \<and> prev_ref_pair = refs st \<and> st' = st)"
proof -
  define vs where "vs = refs st # interference"
  note ex = RefIfNonZero_exact [of interference st, folded vs_def]
  have c1: "RefIfNonZero interference st =
      (case find (\<lambda>v. GetStrongRefs v = 0) vs of
         Some v \<Rightarrow> (False, v, st\<lparr>refs := v\<rparr>)
       | None \<Rightarrow> (True, last vs, st\<lparr>refs := last vs + MakeRefPair 1 0\<rparr>))"
    by (rule ex)
  have rest: "(handle \<longleftrightarrow> 0 < GetStrongRefs prev_ref_pair) \<and>
    (handle \<longrightarrow>
       prev_ref_pair = last vs \<and>
       (\<forall>v \<in> set vs. 0 < GetStrongRefs v) \<and>
       st' = st\<lparr>refs := prev_ref_pair + MakeRefPair 1 0\<rparr> \<and>
       GetWeakRefs (refs st') = GetWeakRefs prev_ref_pair \<and>
       (unat (GetStrongRefs prev_ref_pair) < 2 ^ 32 - 1 \<longrightarrow>
          unat (GetStrongRefs (refs st')) = unat (GetStrongRefs prev_ref_pair) + 1)) \<and>
    (\<not> handle \<longrightarrow>
       find (\<lambda>v. GetStrongRefs v = 0) vs = Some prev_ref_pair \<and>
       st' = st\<lparr>refs := prev_ref_pair\<rparr>) \<and>
    (GetStrongRefs (refs st) = 0 \<longrightarrow> \<not> handle \<and> prev_ref_pair = refs st \<and> st' = st)"
  proof (cases "find (\<lambda>v. GetStrongRefs v = 0) vs")
    case None
    then have all: "\<forall>v \<in> set vs. 0 < GetStrongRefs v"
      by (simp only: find_None_iff word_greater_zero_iff) blast
    from ex assms have "(handle, prev_ref_pair, st') =
        (True, last vs, st\<lparr>refs := last vs + MakeRefPair 1 0\<rparr>)"
      by (simp only: None option.case)
    then have r: "handle" "prev_ref_pair = last vs"
      "st' = st\<lparr>refs := last vs + MakeRefPair 1 0\<rparr>"
      by blast+
    have ne: "vs \<noteq> []" by (simp add: vs_def)
    then have "last vs \<in> set vs" by (rule last_in_set)
    with all have pos: "0 < GetStrongRefs (last vs)" by blast
    have "refs st \<in> set vs" by (simp add: vs_def)
    with all have "GetStrongRefs (refs st) \<noteq> 0"
      by (auto simp add: word_greater_zero_iff)
    moreover have "refs st' = last vs + MakeRefPair 1 0"
      by (simp add: r(3))
    ultimately show ?thesis
      using r all pos None add_strong_halves [of "last vs"] by simp
  next
    case (Some v)
    then have z: "GetStrongRefs v = 0"
      by (auto simp add: find_Some_iff)
    from ex assms have "(handle, prev_ref_pair, st') = (False, v, st\<lparr>refs := v\<rparr>)"
      by (simp only: Some option.case)
    then have r: "\<not> handle" "prev_ref_pair = v" "st' = st\<lparr>refs := v\<rparr>"
      by blast+
    have "v = refs st" if "GetStrongRefs (refs st) = 0"
      using Some that by (simp add: vs_def)
    with Some r z show ?thesis
      by auto
  qed
  from c1 rest show ?thesis
    unfolding vs_def by blast
qed

text \<open>
  The amended C4 at an object with one strong ref: other threads store strong = 2 and then
  (strong = 0, weak = 1), and the call returns no handle; another thread stores strong = 2
  and the call returns a handle with strong = 3; and at an orphaned object with one weak
  ref.
\<close>

theorem RefIfNonZero_result_witness:
  "RefIfNonZero [0x200000000, 0x1] \<lparr>refs = 0x100000000, events = []\<rparr> =
     (False, 0x1, \<lparr>refs = 0x1, events = []\<rparr>) \<and>
   find (\<lambda>v. GetStrongRefs v = 0) [0x100000000, 0x200000000, 0x1] = Some 0x1 \<and>
   RefIfNonZero [0x200000000] \<lparr>refs = 0x100000000, events = []\<rparr> =
     (True, 0x200000000, \<lparr>refs = 0x300000000, events = []\<rparr>) \<and>
   unat (GetStrongRefs 0x200000000) < 2 ^ 32 - 1 \<and>
   unat (GetStrongRefs 0x300000000) = unat (GetStrongRefs 0x200000000) + 1 \<and>
   GetStrongRefs (refs \<lparr>refs = 0x1, events = [OrphanedCalled]\<rparr>) = 0 \<and>
   RefIfNonZero [0x100000001] \<lparr>refs = 0x1, events = [OrphanedCalled]\<rparr> =
     (False, 0x1, \<lparr>refs = 0x1, events = [OrphanedCalled]\<rparr>)"
proof -
  have h1: "RefIfNonZero [0x200000000, 0x1] \<lparr>refs = 0x100000000, events = []\<rparr> =
     (False, 0x1, \<lparr>refs = 0x1, events = []\<rparr>)"
    by code_simp
  have h2: "RefIfNonZero [0x200000000] \<lparr>refs = 0x100000000, events = []\<rparr> =
     (True, 0x200000000, \<lparr>refs = 0x300000000, events = []\<rparr>)"
    by code_simp
  have h3: "RefIfNonZero [0x100000001] \<lparr>refs = 0x1, events = [OrphanedCalled]\<rparr> =
     (False, 0x1, \<lparr>refs = 0x1, events = [OrphanedCalled]\<rparr>)"
    by code_simp
  have g: "unat (GetStrongRefs 0x200000000) = 2" "GetStrongRefs 0x1 = 0"
    "GetStrongRefs 0x100000000 \<noteq> 0" "GetStrongRefs 0x200000000 \<noteq> 0"
    by (simp_all add: GetStrongRefs_def)
  from RefIfNonZero_result [OF h1] RefIfNonZero_result [OF h2] RefIfNonZero_result [OF h3]
    h1 h2 h3 g
  show ?thesis by simp
qed

text \<open>
  Claim C9: for all 32-bit values \<open>s\<close> and \<open>w\<close>, \<^verbatim>\<open>GetStrongRefs(MakeRefPair(s, w))\<close> is \<open>s\<close>
  and \<^verbatim>\<open>GetWeakRefs(MakeRefPair(s, w))\<close> is \<open>w\<close>; and whenever \<open>s\<close> is at least 1 and \<open>w\<close> is
  below \<open>2 ^ 32 - 1\<close>, adding \<^verbatim>\<open>MakeRefPair(-1, 1)\<close> to \<^verbatim>\<open>MakeRefPair(s, w)\<close> modulo \<open>2 ^ 64\<close>
  gives \<^verbatim>\<open>MakeRefPair(s - 1, w + 1)\<close>, where neither \<open>s - 1\<close> nor \<open>w + 1\<close> wraps: nothing is
  carried or borrowed between the two halves.
\<close>

theorem RefPair_arith:
  "GetStrongRefs (MakeRefPair s w) = s \<and> GetWeakRefs (MakeRefPair s w) = w \<and>
   (1 \<le> unat s \<and> unat w < 2 ^ 32 - 1 \<longrightarrow>
      MakeRefPair s w + MakeRefPair (- 1) 1 = MakeRefPair (s - 1) (w + 1) \<and>
      unat (s - 1) = unat s - 1 \<and> unat (w + 1) = unat w + 1)"
proof -
  have "MakeRefPair s w + MakeRefPair (- 1) 1 = MakeRefPair (s - 1) (w + 1) \<and>
      unat (s - 1) = unat s - 1 \<and> unat (w + 1) = unat w + 1"
    if s: "1 \<le> unat s" and w: "unat w < 2 ^ 32 - 1"
  proof -
    define st :: DualRefCounted where "st = \<lparr>refs = MakeRefPair s w, events = []\<rparr>"
    define st' :: DualRefCounted where "st' = st\<lparr>refs := refs st + MakeRefPair (- 1) 1\<rparr>"
    have sc: "strong_count st = unat s" and wc: "weak_count st = unat w"
      by (simp_all add: st_def strong_count_def weak_count_def GetStrongRefs_MakeRefPair
          GetWeakRefs_MakeRefPair)
    have r: "refs st' = refs st + MakeRefPair (- 1) 1"
      by (simp add: st'_def)
    have pos: "0 < strong_count st"
      using s sc by simp
    have s1: "unat (s - 1) = unat s - 1"
      using s by (simp add: unat_sub word_le_nat_alt)
    have w1: "unat (w + 1) = unat w + 1"
      using w by (simp add: unat_word_ariths)
    have "strong_count st' = unat s - 1" and "weak_count st' = unat w + 1"
      using convert_counts [OF r pos] w by (simp_all add: sc wc)
    then have "unat (GetStrongRefs (refs st')) = unat (s - 1)"
      and "unat (GetWeakRefs (refs st')) = unat (w + 1)"
      by (simp_all add: s1 w1 strong_count_def weak_count_def)
    then have "GetStrongRefs (refs st') = s - 1" and "GetWeakRefs (refs st') = w + 1"
      by (simp_all add: word_unat_eq_iff)
    then have "refs st' = MakeRefPair (s - 1) (w + 1)"
      using MakeRefPair_Get [of "refs st'"] by simp
    then show ?thesis
      using s1 w1 by (simp add: st'_def st_def)
  qed
  then show ?thesis
    by (simp add: GetStrongRefs_MakeRefPair GetWeakRefs_MakeRefPair)
qed

text \<open>C9 at strong = 3 and weak = 7.\<close>

theorem RefPair_arith_witness:
  "1 \<le> unat (3 :: uint32_t) \<and> unat (7 :: uint32_t) < 2 ^ 32 - 1 \<and>
   MakeRefPair 3 7 + MakeRefPair (- 1) 1 = MakeRefPair 2 8"
proof -
  have h: "1 \<le> unat (3 :: uint32_t) \<and> unat (7 :: uint32_t) < 2 ^ 32 - 1" by simp
  show ?thesis using h RefPair_arith [of 3 7] by simp
qed

text \<open>
  Claim C10, as stated, fails in two places. For a negative \<^verbatim>\<open>initial_refcount\<close> the strong
  count is not that value: the conversion to \<^verbatim>\<open>uint32_t\<close> at the call of \<^verbatim>\<open>MakeRefPair\<close>
  turns -1 into 4294967295. And the constructor is not part of the public interface: it is
  declared \<^verbatim>\<open>protected\<close>.
\<close>

theorem ctor_ref_pair_counterexample:
  "sint (- 1 :: int32_t) = - 1 \<and>
   int (strong_count (DualRefCounted_ctor (- 1))) = 4294967295 \<and>
   DualRefCounted_ctor_access \<noteq> Public"
proof -
  have "GetStrongRefs (refs (DualRefCounted_ctor (- 1))) = - 1"
    by (simp add: DualRefCounted_ctor_def GetStrongRefs_MakeRefPair)
  then have "strong_count (DualRefCounted_ctor (- 1)) = 4294967295"
    by (simp add: strong_count_def unat_m1_32)
  then show ?thesis
    by (simp add: DualRefCounted_ctor_access_def)
qed

text \<open>
  Claim C10, amended: the constructor initialises the ref-pair to (strong =
  \<^verbatim>\<open>initial_refcount\<close> converted to \<^verbatim>\<open>uint32_t\<close>, weak = 0) for every value of its
  parameter, and records no call: the strong count holds the bits of \<^verbatim>\<open>initial_refcount\<close>,
  which in numbers is \<^verbatim>\<open>initial_refcount\<close> when that is not negative and
  \<^verbatim>\<open>initial_refcount\<close> plus \<open>2 ^ 32\<close> when it is negative; the weak count is always zero at
  construction. The constructor is protected, and it lets a subclass start with a strong
  count other than 1, which is only the default argument: called with 2 it gives a strong
  count of 2.
\<close>

theorem ctor_ref_pair:
  "GetStrongRefs (refs (DualRefCounted_ctor initial_refcount)) = initial_refcount \<and>
   GetWeakRefs (refs (DualRefCounted_ctor initial_refcount)) = 0 \<and>
   events (DualRefCounted_ctor initial_refcount) = [] \<and>
   weak_count (DualRefCounted_ctor initial_refcount) = 0 \<and>
   int (strong_count (DualRefCounted_ctor initial_refcount)) = sint initial_refcount mod 2 ^ 32 \<and>
   (0 \<le> sint initial_refcount \<longrightarrow>
      int (strong_count (DualRefCounted_ctor initial_refcount)) = sint initial_refcount) \<and>
   (sint initial_refcount < 0 \<longrightarrow>
      int (strong_count (DualRefCounted_ctor initial_refcount)) = sint initial_refcount + 2 ^ 32) \<and>
   DualRefCounted_ctor_access = Protected \<and>
   DualRefCounted_default = DualRefCounted_ctor 1 \<and>
   strong_count DualRefCounted_default = 1 \<and>
   strong_count (DualRefCounted_ctor 2) = 2"
proof -
  have g: "GetStrongRefs (refs (DualRefCounted_ctor i)) = i"
    "GetWeakRefs (refs (DualRefCounted_ctor i)) = 0" for i
    by (simp_all add: DualRefCounted_ctor_def GetStrongRefs_MakeRefPair GetWeakRefs_MakeRefPair)
  have m: "int (strong_count (DualRefCounted_ctor initial_refcount)) = sint initial_refcount mod 2 ^ 32"
    using uint_sint [of initial_refcount]
    by (simp add: strong_count_def g take_bit_eq_mod)
  have lt: "sint initial_refcount < 2 ^ 32" and ge: "- (2 ^ 32) \<le> sint initial_refcount"
    using sint_less [of initial_refcount] sint_greater_eq [of initial_refcount] by simp_all
  have nn: "0 \<le> sint initial_refcount \<longrightarrow>
      int (strong_count (DualRefCounted_ctor initial_refcount)) = sint initial_refcount"
    unfolding m using lt by simp
  have ng: "sint initial_refcount < 0 \<longrightarrow>
      int (strong_count (DualRefCounted_ctor initial_refcount)) = sint initial_refcount + 2 ^ 32"
  proof
    assume n: "sint initial_refcount < 0"
    have "(sint initial_refcount + 2 ^ 32) mod 2 ^ 32 = sint initial_refcount + 2 ^ 32"
      using n ge by (intro mod_pos_pos_trivial) simp_all
    then show "int (strong_count (DualRefCounted_ctor initial_refcount)) = sint initial_refcount + 2 ^ 32"
      unfolding m by simp
  qed
  have d: "strong_count DualRefCounted_default = 1" "strong_count (DualRefCounted_ctor 2) = 2"
    by (simp_all add: strong_count_def DualRefCounted_default_def g)
  from m nn ng d show ?thesis
    by (simp add: g weak_count_def DualRefCounted_default_def DualRefCounted_ctor_access_def)
      (simp add: DualRefCounted_ctor_def)
qed

text \<open>The amended C10 at the initial counts 5 and -3.\<close>

theorem ctor_ref_pair_witness:
  "0 \<le> sint (5 :: int32_t) \<and> int (strong_count (DualRefCounted_ctor 5)) = 5 \<and>
   sint (- 3 :: int32_t) < 0 \<and> int (strong_count (DualRefCounted_ctor (- 3))) = 4294967293"
proof -
  have h: "0 \<le> sint (5 :: int32_t)" "sint (- 3 :: int32_t) < 0" by simp_all
  from ctor_ref_pair [of 5] ctor_ref_pair [of "- 3"] h show ?thesis
    by simp
qed

section \<open>Properties of Waker\<close>




section \<open>Properties of ForwardCall\<close>

text \<open>
  Claim C6: on the initiator-to-handler direction of \<^verbatim>\<open>ForwardCall\<close>, if the pull of the
  server initial metadata yields a value, the calls made on the handler are: the push of
  that metadata, then the push of every server message in order, then the observer, then
  the push of the server trailing metadata; if the pull yields an empty optional, no
  message is pumped and the calls are the observer and the push of the trailing metadata.
  The trailing metadata is the one pulled after the pump, cancelled or not.
\<close>

theorem ForwardCall_server_order:
  "(server_initial_metadata ini = Value (Some md) \<longrightarrow>
      handler_log (ForwardCall cm ce ini obs) =
        [SpawnPushServerInitialMetadata md] @ map SpawnPushMessage (server_messages ini) @
        [OnServerTrailingMetadataFromInitiator
           (server_trailing_metadata ini (server_messages_end ini = Failure)),
         SpawnPushServerTrailingMetadata
           (obs (server_trailing_metadata ini (server_messages_end ini = Failure)))]) \<and>
   (server_initial_metadata ini = Value None \<longrightarrow>
      handler_log (ForwardCall cm ce ini obs) =
        [OnServerTrailingMetadataFromInitiator (server_trailing_metadata ini False),
         SpawnPushServerTrailingMetadata (obs (server_trailing_metadata ini False))])"
  by (simp add: ForwardCall_handler_log ForwardCall_cancelled)

text \<open>
  C6 at a server that sends initial metadata 10 and the messages 3 and 4, and at a server
  whose initial metadata is absent; the trailing metadata is 0, the observer adds 1.
\<close>

theorem ForwardCall_server_order_witness:
  "server_initial_metadata
     \<lparr>server_initial_metadata = Value (Some (10 :: nat)), server_messages = [3 :: nat, 4],
      server_messages_end = Success, server_trailing_metadata = (\<lambda>c. if c then 99 else 0)\<rparr> =
     Value (Some 10) \<and>
   handler_log (ForwardCall [1, 2] Success
     \<lparr>server_initial_metadata = Value (Some (10 :: nat)), server_messages = [3 :: nat, 4],
      server_messages_end = Success, server_trailing_metadata = (\<lambda>c. if c then 99 else 0)\<rparr>
     (\<lambda>x. x + 1)) =
     [SpawnPushServerInitialMetadata 10, SpawnPushMessage 3, SpawnPushMessage 4,
      OnServerTrailingMetadataFromInitiator 0, SpawnPushServerTrailingMetadata 1] \<and>
   server_initial_metadata
     \<lparr>server_initial_metadata = Value (None :: nat option), server_messages = [3 :: nat, 4],
      server_messages_end = Success, server_trailing_metadata = (\<lambda>c. if c then 99 else 0)\<rparr> =
     Value None \<and>
   handler_log (ForwardCall [1, 2] Success
     \<lparr>server_initial_metadata = Value (None :: nat option), server_messages = [3 :: nat, 4],
      server_messages_end = Success, server_trailing_metadata = (\<lambda>c. if c then 99 else 0)\<rparr>
     (\<lambda>x. x + 1)) =
     [OnServerTrailingMetadataFromInitiator 0, SpawnPushServerTrailingMetadata 1]"
  using
    ForwardCall_server_order [where md = 10 and cm = "[1, 2]" and ce = Success
      and obs = "\<lambda>x. x + 1"
      and ini = "\<lparr>server_initial_metadata = Value (Some (10 :: nat)),
        server_messages = [3 :: nat, 4], server_messages_end = Success,
        server_trailing_metadata = (\<lambda>c. if c then 99 else 0)\<rparr>"]
    ForwardCall_server_order [where cm = "[1, 2]" and ce = Success
      and obs = "\<lambda>x. x + 1"
      and ini = "\<lparr>server_initial_metadata = Value (None :: nat option),
        server_messages = [3 :: nat, 4], server_messages_end = Success,
        server_trailing_metadata = (\<lambda>c. if c then 99 else 0)\<rparr>"]
  by simp

text \<open>
  Claim C7: in every run of \<^verbatim>\<open>ForwardCall\<close> the observer
  \<^verbatim>\<open>on_server_trailing_metadata_from_initiator\<close> is called exactly once; it is called with
  the server trailing metadata pulled from the initiator, after everything forwarded before
  and immediately before that metadata, as the observer leaves it, is pushed to the handler.
  This covers both cancellation paths, a failed pull of the initial metadata and a message
  stream that ends in failure, after which the metadata pulled is that of the cancelled
  call.
\<close>

theorem observer_called_once:
  "length (filter is_observer_call (handler_log (ForwardCall cm ce ini obs))) = 1 \<and>
   (\<exists>forwarded.
      filter is_observer_call forwarded = [] \<and>
      handler_log (ForwardCall cm ce ini obs) =
        forwarded @
        [OnServerTrailingMetadataFromInitiator
           (server_trailing_metadata ini (initiator_cancelled (ForwardCall cm ce ini obs))),
         SpawnPushServerTrailingMetadata
           (obs (server_trailing_metadata ini (initiator_cancelled (ForwardCall cm ce ini obs))))]) \<and>
   initiator_cancelled (ForwardCall cm ce ini obs) =
     (case server_initial_metadata ini of
        NoValue \<Rightarrow> True
      | Value None \<Rightarrow> False
      | Value (Some m) \<Rightarrow> server_messages_end ini = Failure)"
proof -
  define forwarded :: "('a, 'b) handler_action list" where
    "forwarded = (case server_initial_metadata ini of
        Value (Some m) \<Rightarrow>
          SpawnPushServerInitialMetadata m # map SpawnPushMessage (server_messages ini)
      | _ \<Rightarrow> [])"
  have f: "filter is_observer_call forwarded = []"
    by (auto simp add: forwarded_def is_observer_call_def filter_empty_conv
        split: ValueOrFailure.splits option.splits)
  have l: "handler_log (ForwardCall cm ce ini obs) =
        forwarded @
        [OnServerTrailingMetadataFromInitiator
           (server_trailing_metadata ini (initiator_cancelled (ForwardCall cm ce ini obs))),
         SpawnPushServerTrailingMetadata
           (obs (server_trailing_metadata ini (initiator_cancelled (ForwardCall cm ce ini obs))))]"
    unfolding forwarded_def by (rule ForwardCall_handler_log)
  have "length (filter is_observer_call (handler_log (ForwardCall cm ce ini obs))) = 1"
    unfolding l by (simp add: f) (simp add: is_observer_call_def)
  with f l show ?thesis
    using ForwardCall_cancelled [of cm ce ini obs] by blast
qed

section \<open>Properties of PartySync\<close>

text \<open>
  Claim C8: for every \<open>n\<close> of at least 1, a successful call
  \<^verbatim>\<open>AddParticipantsAndRef(n, assign_fn)\<close> passes \<open>assign_fn\<close> an array of \<open>n\<close> slot indices
  that are strictly increasing, each below \<open>kMaxParticipants\<close> and each naming a slot that
  was free before the call.
\<close>

theorem AddParticipantsAndRef_slots:
  assumes "1 \<le> n"
    and "AddParticipantsAndRef kMaxParticipants n assign_fn (sync, user) = Inr (run, sync', user')"
  shows "user' = assign_fn (assigned_slots kMaxParticipants n sync) user \<and>
    length (assigned_slots kMaxParticipants n sync) = n \<and>
    sorted_wrt (<) (assigned_slots kMaxParticipants n sync) \<and>
    (\<forall>i \<in> set (assigned_slots kMaxParticipants n sync).
       i < kMaxParticipants \<and> \<not> bit (allocated sync) i)"
proof -
  from assms(2) have "length (assigned_slots kMaxParticipants n sync) = n"
    and "user' = assign_fn (assigned_slots kMaxParticipants n sync) user"
    by (auto simp add: AddParticipantsAndRef_def assigned_slots_def split_def Let_def
        split: if_splits)
  then show ?thesis
    using assigned_slots_sorted [of kMaxParticipants n sync]
      assigned_slots_free [of _ kMaxParticipants n sync] by blast
qed

text \<open>
  C8 at a table of 16 slots with slots 0 and 2 taken: a batch of two gets slots 1 and 3.
\<close>

theorem AddParticipantsAndRef_slots_witness:
  "(1 :: nat) \<le> 2 \<and>
   AddParticipantsAndRef 16 2 (\<lambda>slots u. slots)
     (\<lparr>locked = False, wakeups = 0, allocated = 5, ref_count = 1\<rparr>, []) =
     Inr (True, \<lparr>locked = True, wakeups = 10, allocated = 15, ref_count = 2\<rparr>, [1, 3]) \<and>
   assigned_slots 16 2 \<lparr>locked = False, wakeups = 0, allocated = 5, ref_count = 1\<rparr> = [1, 3] \<and>
   sorted_wrt (<) (assigned_slots 16 2 \<lparr>locked = False, wakeups = 0, allocated = 5, ref_count = 1\<rparr>)"
proof -
  have h1: "(1 :: nat) \<le> 2" by simp
  have h2: "AddParticipantsAndRef 16 2 (\<lambda>slots u. slots)
     (\<lparr>locked = False, wakeups = 0, allocated = 5, ref_count = 1\<rparr>, []) =
     Inr (True, \<lparr>locked = True, wakeups = 10, allocated = 15, ref_count = 2\<rparr>, [1, 3])"
    by code_simp
  from AddParticipantsAndRef_slots [OF h1 h2] h1 h2 show ?thesis
    by simp
qed

end
